theory Spec2Isabelle
  imports Main "HOL-Library.Sublist" "HOL-Library.AList"
begin

section \<open>The merge bot \<open>trymerge.py\<close>: data model\<close>

text \<open>
  The development embeds the decision logic of \<open>.github/scripts/trymerge.py\<close>.
  Python strings are \<^typ>\<open>string\<close>; the substring test \<open>x in name\<close> on two strings is
  \<^const>\<open>sublist\<close> (a contiguous infix). A Python \<open>dict\<close> keeps insertion order, so it
  is an association list with distinct keys: \<open>d[k]\<close> and \<open>d.get(k)\<close> are
  \<^const>\<open>map_of\<close>, and the assignment \<open>d[k] = v\<close> is \<^const>\<open>AList.update\<close>
  (overwrite in place, or append a new key at the end). Exceptions are values of
  \<open>error\<close>, returned as \<open>Inl\<close>.
\<close>

type_synonym 'v dict = "(string \<times> 'v) list"

text \<open>\<open>class JobCheckState\<close>: one CI job; status \<open>None\<close> means not concluded.\<close>

record JobCheckState =
  jcs_name :: string
  jcs_url :: string
  jcs_status :: "string option"
  jcs_classification :: "string option"

type_synonym JobNameToStateDict = "JobCheckState dict"

text \<open>\<open>class FlakyRule\<close>.\<close>

record FlakyRule =
  fr_name :: string
  fr_captures :: "string list"

text \<open>
  One row of the analytics query in \<open>get_rockset_results\<close>. The columns
  \<open>conclusion\<close> and \<open>failure_captures\<close> can be null (a job that has not concluded, a
  job without a failure classification), which the source tests for explicitly.
\<close>

record job =
  job_workflow_name :: string
  job_id :: int
  job_name :: string
  job_conclusion :: "string option"
  job_head_sha :: string
  job_failure_captures :: "string list option"
  job_steps :: int

text \<open>\<open>@dataclass GitHubComment\<close>.\<close>

record GitHubComment =
  body_text :: string
  created_at :: string
  author_login :: string
  author_association :: string
  editor_login :: "string option"
  database_id :: int

text \<open>\<open>@dataclass MergeRule\<close>.\<close>

record MergeRule =
  mr_name :: string
  mr_patterns :: "string list"
  mr_approved_by :: "string list"
  mr_mandatory_checks_name :: "string list option"

text \<open>
  The messages carried by the exceptions of the source. Each constructor stands for one
  f-string of the source and keeps the values that are formatted into it; the rendering
  to text is not modelled (one of the messages prints a Python \<open>set\<close>, whose order is
  not a function of its elements).
\<close>

datatype reason =
    CommentNotFound int
  | ChangedFileCountMismatch
  | NoRulesDefined
  | NoRuleFound
  | NotAllFilesMatch string int "string list"
  | NotReviewed int string
  | ApprovalNeeded string "string set"
  | ChecksFailed string "(string \<times> string option) list"
  | ChecksPending string "(string \<times> string option) list"
  | InternalChanges
  | EditedCommand
  | NotAllowedReverter string "string list" string
  | NoCommitsResolving
  | LandedViaPhabricator string

datatype error =
    RuntimeError reason
  | MandatoryChecksMissingError reason MergeRule
  | PostCommentError reason
  | ValueError
  | IndexError
  | AssertionError

section \<open>Historical jobs: \<open>get_classifications.insert\<close>\<close>

text \<open>
  \<^verbatim>\<open>
  def insert(d, key, val):
      if key not in d:
          d[key] = val
          return
      if d[key]["conclusion"] == "success":
          return
      if d[key]["id"] < val["id"]:
          d[key] = val
  \<close>
\<close>

definition insert_job :: "job dict \<Rightarrow> string \<Rightarrow> job \<Rightarrow> job dict" where
  "insert_job d key val =
     (case map_of d key of
        None \<Rightarrow> AList.update key val d
      | Some old \<Rightarrow>
          if job_conclusion old = Some ''success'' then d
          else if job_id old < job_id val then AList.update key val d
          else d)"

section \<open>Flaky rules: \<open>FlakyRule.matches\<close>\<close>

text \<open>
  \<^verbatim>\<open>
  def matches(self, job):
      return (
          job is not None
          and self.name in job.get('name', '')
          and job.get('failure_captures', None) is not None
          and all([capture in job.get("failure_captures", []) for capture in self.captures])
      )
  \<close>
  \<open>self.name in job['name']\<close> is a substring test; \<open>capture in failure_captures\<close> is
  membership in a list.
\<close>

definition matches :: "FlakyRule \<Rightarrow> job option \<Rightarrow> bool" where
  "matches rule j =
     (case j of
        None \<Rightarrow> False
      | Some jb \<Rightarrow>
          sublist (fr_name rule) (job_name jb) \<and>
          (case job_failure_captures jb of
             None \<Rightarrow> False
           | Some caps \<Rightarrow> list_all (\<lambda>capture. capture \<in> set caps) (fr_captures rule)))"

section \<open>Comments of a pull request\<close>

text \<open>
  The part of \<open>class GitHubPR\<close> the decisions read. \<open>comment_nodes\<close> is the page of
  comments fetched with the pull request (\<open>info["comments"]["nodes"]\<close>, already through
  \<open>_comment_from_node\<close>), \<open>prev_comments\<close> what the earlier pages hold, oldest first, so
  that \<open>get_comments()\<close> is \<open>prev_comments @ comment_nodes\<close>. \<open>files_fetched\<close> are the
  paths collected by the paging loop of \<open>get_changed_files\<close> and \<open>changed_files_count\<close>
  is \<open>info["changedFiles"]\<close>; \<open>reviews_fetched\<close> is \<open>self._reviews\<close>, oldest first;
  \<open>labels\<close> is \<open>get_labels()\<close>; \<open>conclusions\<close> is \<open>get_checkrun_conclusions()\<close>;
  \<open>merge_commit\<close> is \<open>get_merge_commit()\<close>.
\<close>

record GitHubPR =
  pr_org :: string
  pr_project :: string
  pr_num :: int
  pr_title :: string
  pr_body :: string
  base_repo_private :: bool
  last_commit_oid :: string
  merge_base :: string
  comment_nodes :: "GitHubComment list"
  prev_comments :: "GitHubComment list"
  files_fetched :: "string list"
  changed_files_count :: int
  reviews_fetched :: "(string \<times> string) list"
  labels :: "string list"
  conclusions :: JobNameToStateDict
  merge_commit :: "string option"

definition get_comments :: "GitHubPR \<Rightarrow> GitHubComment list" where
  "get_comments pr = prev_comments pr @ comment_nodes pr"

text \<open>
  \<open>get_last_comment\<close> reads \<open>nodes[-1]\<close>, which raises \<open>IndexError\<close> on an empty page.
\<close>

definition get_last_comment :: "GitHubPR \<Rightarrow> error + GitHubComment" where
  "get_last_comment pr =
     (if comment_nodes pr = [] then Inl IndexError else Inr (last (comment_nodes pr)))"

text \<open>
  \<open>get_comment_by_id\<close>: the first comment with the id among the prefetched nodes, else
  the first in the full list, else \<open>RuntimeError\<close>.
\<close>

definition get_comment_by_id :: "GitHubPR \<Rightarrow> int \<Rightarrow> error + GitHubComment" where
  "get_comment_by_id pr i =
     (case find (\<lambda>c. database_id c = i) (comment_nodes pr) of
        Some c \<Rightarrow> Inr c
      | None \<Rightarrow>
          (case find (\<lambda>c. database_id c = i) (get_comments pr) of
             Some c \<Rightarrow> Inr c
           | None \<Rightarrow> Inl (RuntimeError (CommentNotFound i))))"

text \<open>
  \<^verbatim>\<open>
  def can_skip_internal_checks(pr, comment_id=None):
      if comment_id is None:
          return False
      comment = pr.get_comment_by_id(comment_id)
      if comment.editor_login is not None:
          return False
      return comment.author_login == "facebook-github-bot"
  \<close>
\<close>

definition can_skip_internal_checks :: "GitHubPR \<Rightarrow> int option \<Rightarrow> error + bool" where
  "can_skip_internal_checks pr comment_id =
     (case comment_id of
        None \<Rightarrow> Inr False
      | Some i \<Rightarrow>
          (case get_comment_by_id pr i of
             Inl e \<Rightarrow> Inl e
           | Inr comment \<Rightarrow>
               if editor_login comment \<noteq> None then Inr False
               else Inr (author_login comment = ''facebook-github-bot'')))"

section \<open>Numbered labels: \<open>GitHubPR.add_numbered_label\<close>\<close>

text \<open>\<open>str(n)\<close> for a natural number: its decimal digits.\<close>

definition digit_char :: "nat \<Rightarrow> char" where
  "digit_char d = char_of (48 + d)"

function str_nat :: "nat \<Rightarrow> string" where
  "str_nat n = (if n < 10 then [digit_char n] else str_nat (n div 10) @ [digit_char (n mod 10)])"
  by pat_completeness auto
termination
  by (relation "measure id") auto

declare str_nat.simps [simp del]

text \<open>
  \<^verbatim>\<open>
  def add_numbered_label(self, label_base):
      labels = self.get_labels()
      label = label_base
      for i in range(len(labels) if labels is not None else 0):
          if label in labels:
              label = f"{label_base}X{i+2}"
      gh_add_labels(self.org, self.project, self.pr_num, [label])
  \<close>
  \<open>label in labels\<close> is membership in the list. The function value is the label handed
  to \<open>gh_add_labels\<close>.
\<close>

definition add_numbered_label :: "GitHubPR \<Rightarrow> string \<Rightarrow> string" where
  "add_numbered_label pr label_base =
     fold (\<lambda>i label. if label \<in> set (labels pr) then label_base @ ''X'' @ str_nat (i + 2) else label)
       [0..<length (labels pr)] label_base"

text \<open>The loop of \<open>add_numbered_label\<close> after its first \<open>i\<close> iterations.\<close>

definition label_loop :: "string list \<Rightarrow> string \<Rightarrow> nat \<Rightarrow> string" where
  "label_loop ls label_base i =
     fold (\<lambda>i label. if label \<in> set ls then label_base @ ''X'' @ str_nat (i + 2) else label)
       [0..<i] label_base"

text \<open>The labels the loop can hold: the base, then \<open>baseX2\<close>, \<open>baseX3\<close>, ...\<close>

definition candidate :: "string \<Rightarrow> nat \<Rightarrow> string" where
  "candidate label_base k = (if k = 0 then label_base else label_base @ ''X'' @ str_nat (k + 1))"

section \<open>Categorising checks: \<open>is_passing_status\<close> and \<open>categorize_checks\<close>\<close>

text \<open>
  \<open>status.upper()\<close>: the status values of the forge are ASCII words, and on ASCII
  \<open>str.upper\<close> maps \<open>a\<close>..\<open>z\<close> to \<open>A\<close>..\<open>Z\<close> and leaves every other character.
\<close>

definition upper_char :: "char \<Rightarrow> char" where
  "upper_char c =
     (let n = (of_char c :: nat) in if 97 \<le> n \<and> n \<le> 122 then char_of (n - 32) else c)"

definition upper :: "string \<Rightarrow> string" where
  "upper s = map upper_char s"

text \<open>
  \<^verbatim>\<open>
  def is_passing_status(status):
      return status is not None and status.upper() in ["SUCCESS", "SKIPPED", "NEUTRAL"]
  \<close>
\<close>

definition is_passing_status :: "string option \<Rightarrow> bool" where
  "is_passing_status status =
     (case status of
        None \<Rightarrow> False
      | Some s \<Rightarrow> upper s \<in> set [''SUCCESS'', ''SKIPPED'', ''NEUTRAL''])"

text \<open>
  \<^verbatim>\<open>
  def categorize_checks(check_runs, required_checks, ok_failed_checks_threshold=3):
      pending_checks = []; failed_checks = []; ok_failed_checks = []
      relevant_checknames = [name for name in check_runs.keys()
                             if any([x in name for x in required_checks])]
      for checkname in required_checks:
          if all([checkname not in x for x in check_runs.keys()]):
              pending_checks.append((checkname, None))
      for checkname in relevant_checknames:
          if check_runs[checkname].status is None:
              pending_checks.append((checkname, check_runs[checkname].url))
          elif not is_passing_status(check_runs[checkname].status):
              if check_runs[checkname].classification in ('BROKEN_TRUNK', 'FLAKY'):
                  ok_failed_checks.append((checkname, check_runs[checkname].url))
              else:
                  failed_checks.append((checkname, check_runs[checkname].url))
      if len(ok_failed_checks) > ok_failed_checks_threshold:
          failed_checks = failed_checks + ok_failed_checks
      return (pending_checks, failed_checks)
  \<close>
  The three lists are the state of the two loops. \<open>missing_step\<close> is the body of the
  first loop and \<open>relevant_step\<close> the body of the second; \<open>check_runs[checkname]\<close>
  cannot raise there, since \<open>checkname\<close> is one of the keys. \<open>categorize_buckets\<close> is
  the state after both loops, \<open>categorize_checks\<close> the function.
\<close>

record buckets =
  pending_checks :: "(string \<times> string option) list"
  failed_checks :: "(string \<times> string option) list"
  ok_failed_checks :: "(string \<times> string option) list"

definition relevant_checknames :: "JobNameToStateDict \<Rightarrow> string list \<Rightarrow> string list" where
  "relevant_checknames check_runs required_checks =
     filter (\<lambda>name. list_ex (\<lambda>x. sublist x name) required_checks) (map fst check_runs)"

definition missing_step :: "JobNameToStateDict \<Rightarrow> string \<Rightarrow> buckets \<Rightarrow> buckets" where
  "missing_step check_runs checkname b =
     (if list_all (\<lambda>x. \<not> sublist checkname x) (map fst check_runs)
      then b\<lparr>pending_checks := pending_checks b @ [(checkname, None)]\<rparr>
      else b)"

definition relevant_step :: "JobNameToStateDict \<Rightarrow> string \<Rightarrow> buckets \<Rightarrow> buckets" where
  "relevant_step check_runs checkname b =
     (case map_of check_runs checkname of
        None \<Rightarrow> b
      | Some c \<Rightarrow>
          if jcs_status c = None
          then b\<lparr>pending_checks := pending_checks b @ [(checkname, Some (jcs_url c))]\<rparr>
          else if \<not> is_passing_status (jcs_status c) then
            if jcs_classification c \<in> {Some ''BROKEN_TRUNK'', Some ''FLAKY''}
            then b\<lparr>ok_failed_checks := ok_failed_checks b @ [(checkname, Some (jcs_url c))]\<rparr>
            else b\<lparr>failed_checks := failed_checks b @ [(checkname, Some (jcs_url c))]\<rparr>
          else b)"

definition categorize_buckets :: "JobNameToStateDict \<Rightarrow> string list \<Rightarrow> buckets" where
  "categorize_buckets check_runs required_checks =
     fold (relevant_step check_runs) (relevant_checknames check_runs required_checks)
       (fold (missing_step check_runs) required_checks
          \<lparr>pending_checks = [], failed_checks = [], ok_failed_checks = []\<rparr>)"

definition categorize_checks ::
  "JobNameToStateDict \<Rightarrow> string list \<Rightarrow> int \<Rightarrow>
     (string \<times> string option) list \<times> (string \<times> string option) list" where
  "categorize_checks check_runs required_checks ok_failed_checks_threshold =
     (let b = categorize_buckets check_runs required_checks in
      if int (length (ok_failed_checks b)) > ok_failed_checks_threshold
      then (pending_checks b, failed_checks b @ ok_failed_checks b)
      else (pending_checks b, failed_checks b))"


text \<open>
  The words of the specification: a check name is relevant when some required pattern is
  a substring of it; a classification is benign when it is \<open>FLAKY\<close> or
  \<open>BROKEN_TRUNK\<close>; an entry of a bucket is the name with the URL of the check.
\<close>

definition is_relevant :: "string list \<Rightarrow> string \<Rightarrow> bool" where
  "is_relevant required name = (\<exists>p\<in>set required. sublist p name)"

definition entry :: "string \<times> JobCheckState \<Rightarrow> string \<times> string option" where
  "entry nc = (fst nc, Some (jcs_url (snd nc)))"

definition benign :: "JobCheckState \<Rightarrow> bool" where
  "benign c = (jcs_classification c = Some ''FLAKY'' \<or> jcs_classification c = Some ''BROKEN_TRUNK'')"

section \<open>Classifying failures: \<open>get_classifications\<close>\<close>

text \<open>
  \<^verbatim>\<open>
  for rockset_result in rockset_results:
      name = f"{rockset_result['workflow_name']} / {rockset_result['name']}"
      if rockset_result["head_sha"] == head_sha:
          insert(head_sha_jobs, name, rockset_result)
      else:
          insert(merge_base_jobs, name, rockset_result)
  \<close>
\<close>

definition job_key :: "job \<Rightarrow> string" where
  "job_key r = job_workflow_name r @ '' / '' @ job_name r"

definition insert_result :: "string \<Rightarrow> job \<Rightarrow> job dict \<times> job dict \<Rightarrow> job dict \<times> job dict" where
  "insert_result head_sha rockset_result hm =
     (if job_head_sha rockset_result = head_sha
      then (insert_job (fst hm) (job_key rockset_result) rockset_result, snd hm)
      else (fst hm, insert_job (snd hm) (job_key rockset_result) rockset_result))"

definition head_sha_jobs :: "string \<Rightarrow> job list \<Rightarrow> job dict" where
  "head_sha_jobs head_sha rockset_results = fst (fold (insert_result head_sha) rockset_results ([], []))"

definition merge_base_jobs :: "string \<Rightarrow> job list \<Rightarrow> job dict" where
  "merge_base_jobs head_sha rockset_results = snd (fold (insert_result head_sha) rockset_results ([], []))"

text \<open>
  \<^verbatim>\<open>
  res = {}
  for name, check in checks.items():
      res[name] = check
      if check.status == "SUCCESS":
          continue
      head_sha_job = head_sha_jobs.get(name)
      merge_base_job = merge_base_jobs.get(name)
      if (head_sha_job is not None and merge_base_job is not None
          and head_sha_job["conclusion"] == merge_base_job["conclusion"]
          and head_sha_job["failure_captures"] == merge_base_job["failure_captures"]):
          res[name].classification = "BROKEN_TRUNK"
      elif head_sha_job is not None and head_sha_job["steps"] <= 1:
          res[name].classification = "FLAKY"
      elif any([rule.matches(head_sha_job) for rule in flaky_rules_json]):
          res[name].classification = "FLAKY"
  assert(len(res) == len(checks))
  return res
  \<close>
  \<open>classify\<close> is what one iteration does to the check, \<open>classify_step\<close> the
  iteration. The results of the two downloads, \<open>get_flaky_rules()\<close> and
  \<open>get_rockset_results(head_sha, merge_base)\<close>, are arguments.
\<close>

definition classify ::
  "FlakyRule list \<Rightarrow> job option \<Rightarrow> job option \<Rightarrow> JobCheckState \<Rightarrow> JobCheckState" where
  "classify flaky_rules_json head_sha_job merge_base_job check =
     (if jcs_status check = Some ''SUCCESS'' then check
      else if (case head_sha_job of
                 None \<Rightarrow> False
               | Some h \<Rightarrow>
                   (case merge_base_job of
                      None \<Rightarrow> False
                    | Some m \<Rightarrow> job_conclusion h = job_conclusion m
                        \<and> job_failure_captures h = job_failure_captures m))
      then check\<lparr>jcs_classification := Some ''BROKEN_TRUNK''\<rparr>
      else if (case head_sha_job of None \<Rightarrow> False | Some h \<Rightarrow> job_steps h \<le> 1)
      then check\<lparr>jcs_classification := Some ''FLAKY''\<rparr>
      else if list_ex (\<lambda>rule. matches rule head_sha_job) flaky_rules_json
      then check\<lparr>jcs_classification := Some ''FLAKY''\<rparr>
      else check)"

definition classify_step ::
  "FlakyRule list \<Rightarrow> job dict \<Rightarrow> job dict \<Rightarrow> string \<times> JobCheckState \<Rightarrow>
     JobNameToStateDict \<Rightarrow> JobNameToStateDict" where
  "classify_step flaky_rules_json hj mj nc res =
     AList.update (fst nc) (classify flaky_rules_json (map_of hj (fst nc)) (map_of mj (fst nc)) (snd nc)) res"

definition get_classifications ::
  "string \<Rightarrow> string \<Rightarrow> JobNameToStateDict \<Rightarrow> FlakyRule list \<Rightarrow> job list \<Rightarrow>
     error + JobNameToStateDict" where
  "get_classifications head_sha merge_base_sha checks flaky_rules_json rockset_results =
     (let res = fold (classify_step flaky_rules_json (head_sha_jobs head_sha rockset_results)
                        (merge_base_jobs head_sha rockset_results)) checks []
      in if length res \<noteq> length checks then Inl AssertionError else Inr res)"


text \<open>
  The conditions in the words of the specification: the failure is on a broken trunk
  when both jobs exist with equal conclusion and equal failure captures; the job crashed
  early when the head job exists and has at most one step; it is a known flake when some
  flaky rule matches the head job.
\<close>

definition broken_trunk :: "job option \<Rightarrow> job option \<Rightarrow> bool" where
  "broken_trunk h m = (\<exists>hj mj. h = Some hj \<and> m = Some mj \<and> job_conclusion hj = job_conclusion mj
       \<and> job_failure_captures hj = job_failure_captures mj)"

definition crashed_early :: "job option \<Rightarrow> bool" where
  "crashed_early h = (\<exists>hj. h = Some hj \<and> job_steps hj \<le> 1)"

definition known_flaky :: "FlakyRule list \<Rightarrow> job option \<Rightarrow> bool" where
  "known_flaky rules h = (\<exists>rule\<in>set rules. matches rule h)"

section \<open>Aggregating checks: \<open>add_workflow_conclusions\<close>\<close>

text \<open>
  \<open>class WorkflowCheckState\<close>, and the nodes of the forge's answer that the aggregator
  reads: a check suite (\<open>edge["node"]\<close>) with its optional \<open>workflowRun\<close>, its
  \<open>conclusion\<close> and its check runs. The check runs of a suite come in pages, the
  first with the suite and the next from \<open>get_next_checkruns_page\<close> as long as
  \<open>hasNextPage\<close> is set; \<open>cs_checkruns\<close> is the list of the pages received, each the
  list of its \<open>nodes\<close> (\<open>None\<close> for a node that is not a dictionary, which the
  source skips with a warning). \<open>checkRuns\<close> being null is the empty list of pages.
  The check suites come in pages in the same way, from \<open>get_next_checksuites\<close>.
\<close>

record WorkflowCheckState =
  wcs_name :: string
  wcs_url :: string
  wcs_status :: "string option"
  wcs_jobs :: JobNameToStateDict

record workflow_run =
  wr_workflow_name :: string
  wr_url :: string

record checkrun =
  cr_name :: string
  cr_conclusion :: "string option"
  cr_details_url :: string

record checksuite =
  cs_workflow_run :: "workflow_run option"
  cs_conclusion :: "string option"
  cs_checkruns :: "checkrun option list list"

record aggregation =
  workflows :: "WorkflowCheckState dict"
  no_workflow_jobs :: JobNameToStateDict

definition get_check_run_name_prefix :: "workflow_run option \<Rightarrow> string" where
  "get_check_run_name_prefix workflow_run =
     (case workflow_run of None \<Rightarrow> '''' | Some wr \<Rightarrow> wr_workflow_name wr @ '' / '')"

text \<open>
  The body of the loop over the check runs of one page:
  \<^verbatim>\<open>
  checkrun_name = f'{get_check_run_name_prefix(workflow_run)}{checkrun_node["name"]}'
  existing_checkrun = workflow_obj.jobs.get(checkrun_name)
  if existing_checkrun is None or not is_passing_status(existing_checkrun.status):
      workflow_obj.jobs[checkrun_name] = JobCheckState(
          name=checkrun_name, status=checkrun_node["conclusion"],
          url=checkrun_node["detailsUrl"])
  \<close>
\<close>

definition add_checkrun :: "workflow_run option \<Rightarrow> checkrun option \<Rightarrow> JobNameToStateDict \<Rightarrow> JobNameToStateDict" where
  "add_checkrun workflow_run checkrun_node jobs =
     (case checkrun_node of
        None \<Rightarrow> jobs
      | Some node \<Rightarrow>
          let checkrun_name = get_check_run_name_prefix workflow_run @ cr_name node in
          if (case map_of jobs checkrun_name of
                None \<Rightarrow> True
              | Some existing_checkrun \<Rightarrow> \<not> is_passing_status (jcs_status existing_checkrun))
          then AList.update checkrun_name
                 \<lparr>jcs_name = checkrun_name, jcs_url = cr_details_url node,
                   jcs_status = cr_conclusion node, jcs_classification = None\<rparr> jobs
          else jobs)"

definition add_checkruns :: "workflow_run option \<Rightarrow> checkrun option list list \<Rightarrow> JobNameToStateDict \<Rightarrow> JobNameToStateDict" where
  "add_checkruns workflow_run pages jobs = fold (\<lambda>page. fold (add_checkrun workflow_run) page) pages jobs"

text \<open>
  The body of the loop over the suites of one page (\<open>add_conclusions\<close>):
  \<^verbatim>\<open>
  workflow_obj = no_workflow_obj
  if workflow_run is not None:
      workflow_name = workflow_run["workflow"]["name"]
      workflow_conclusion = node["conclusion"]
      # Do not override existing status with cancelled
      if workflow_conclusion == "CANCELLED" and workflow_name in workflows:
          continue
      if workflow_name not in workflows:
          workflows[workflow_name] = WorkflowCheckState(
              name=workflow_name, status=workflow_conclusion, url=workflow_run["url"])
      workflow_obj = workflows[workflow_name]
  while checkruns is not None: ...
  \<close>
  The state is the dictionary \<open>workflows\<close> and the jobs of \<open>no_workflow_obj\<close>; the
  check runs are added to the jobs of \<open>workflow_obj\<close> in place.
\<close>

definition add_edge :: "checksuite \<Rightarrow> aggregation \<Rightarrow> aggregation" where
  "add_edge node st =
     (case cs_workflow_run node of
        None \<Rightarrow>
          st\<lparr>no_workflow_jobs := add_checkruns None (cs_checkruns node) (no_workflow_jobs st)\<rparr>
      | Some workflow_run \<Rightarrow>
          let workflow_name = wr_workflow_name workflow_run;
              workflow_conclusion = cs_conclusion node
          in if workflow_conclusion = Some ''CANCELLED''
                \<and> workflow_name \<in> set (map fst (workflows st))
             then st
             else
               let wfs = (if workflow_name \<notin> set (map fst (workflows st))
                          then AList.update workflow_name
                                 \<lparr>wcs_name = workflow_name, wcs_url = wr_url workflow_run,
                                   wcs_status = workflow_conclusion, wcs_jobs = []\<rparr>
                                 (workflows st)
                          else workflows st)
               in st\<lparr>workflows :=
                      AList.map_entry workflow_name
                        (\<lambda>workflow_obj. workflow_obj\<lparr>wcs_jobs :=
                           add_checkruns (Some workflow_run) (cs_checkruns node) (wcs_jobs workflow_obj)\<rparr>)
                        wfs\<rparr>)"

definition add_conclusions :: "checksuite list \<Rightarrow> aggregation \<Rightarrow> aggregation" where
  "add_conclusions edges st = fold add_edge edges st"

definition aggregate :: "checksuite list list \<Rightarrow> aggregation" where
  "aggregate pages = fold add_conclusions pages \<lparr>workflows = [], no_workflow_jobs = []\<rparr>"

text \<open>
  Flattening: a workflow with jobs contributes its jobs, a workflow without jobs one
  entry under its own name; the jobs without a workflow come last.
\<close>

definition flatten_workflow :: "string \<times> WorkflowCheckState \<Rightarrow> JobNameToStateDict \<Rightarrow> JobNameToStateDict" where
  "flatten_workflow nw res =
     (if length (wcs_jobs (snd nw)) > 0
      then fold (\<lambda>job res. AList.update (fst job) (snd job) res) (wcs_jobs (snd nw)) res
      else AList.update (fst nw)
             \<lparr>jcs_name = wcs_name (snd nw), jcs_url = wcs_url (snd nw),
               jcs_status = wcs_status (snd nw), jcs_classification = None\<rparr> res)"

definition add_workflow_conclusions :: "checksuite list list \<Rightarrow> JobNameToStateDict" where
  "add_workflow_conclusions pages =
     (let st = aggregate pages in
      fold (\<lambda>job res. AList.update (fst job) (snd job) res) (no_workflow_jobs st)
        (fold flatten_workflow (workflows st) []))"


text \<open>
  Words of the specification: a suite belongs to the workflow named \<open>n\<close>; a suite is
  cancelled; a recorded workflow carries the name, the conclusion and the URL of a suite.
\<close>

definition suite_named :: "string \<Rightarrow> checksuite \<Rightarrow> bool" where
  "suite_named n node = (map_option wr_workflow_name (cs_workflow_run node) = Some n)"

definition cancelled :: "checksuite \<Rightarrow> bool" where
  "cancelled node = (cs_conclusion node = Some ''CANCELLED'')"

definition records_suite :: "WorkflowCheckState \<Rightarrow> string \<Rightarrow> checksuite \<Rightarrow> bool" where
  "records_suite w n node =
     (wcs_name w = n \<and> wcs_status w = cs_conclusion node
      \<and> map_option wr_url (cs_workflow_run node) = Some (wcs_url w))"

section \<open>The rule evaluator: \<open>find_matching_merge_rule\<close>, and \<open>validate_revert\<close>\<close>

text \<open>
  What the merge decision reads from outside the pull request: the rule file
  (\<open>read_merge_rules\<close>), the team members endpoint (\<open>gh_get_team_members\<close>), the
  checks of a land-validation commit (\<open>get_land_checkrun_conclusions\<close>), the two
  downloads of the classifier, and the git queries of the revert. \<open>patterns_match ps f\<close>
  stands for \<open>patterns_to_regex(ps).match(f)\<close> of \<open>gitutils\<close>, and \<open>re_diff_rev\<close> for
  \<open>RE_DIFF_REV.search\<close> with its group 1; both are parameters here.
\<close>

record world =
  merge_rules :: "MergeRule list"
  patterns_match :: "string list \<Rightarrow> string \<Rightarrow> bool"
  gh_get_team_members :: "string \<Rightarrow> string \<Rightarrow> string list"
  land_checkrun_conclusions :: "string \<Rightarrow> JobNameToStateDict"
  get_flaky_rules :: "FlakyRule list"
  get_rockset_results :: "string \<Rightarrow> string \<Rightarrow> job list"
  re_diff_rev :: "string \<Rightarrow> string option"
  commits_resolving_gh_pr :: "int \<Rightarrow> string list"
  commit_message :: "string \<Rightarrow> string"

text \<open>
  \<open>get_changed_files\<close> ends with
  \<^verbatim>\<open>
  if len(self.changed_files) != self.get_changed_files_count():
      raise RuntimeError("Changed file count mismatch")
  \<close>
\<close>

definition get_changed_files :: "GitHubPR \<Rightarrow> error + string list" where
  "get_changed_files pr =
     (if int (length (files_fetched pr)) \<noteq> changed_files_count pr
      then Inl (RuntimeError ChangedFileCountMismatch)
      else Inr (files_fetched pr))"

text \<open>
  \<^verbatim>\<open>
  reviews = {}
  for (author, state) in self._reviews:
      if state != "COMMENTED":
          reviews[author] = state
  return list(reviews.items())
  \<close>
  and \<open>get_approved_by\<close> keeps the logins whose state is \<open>APPROVED\<close>.
\<close>

definition get_reviews :: "GitHubPR \<Rightarrow> (string \<times> string) list" where
  "get_reviews pr =
     fold (\<lambda>review reviews.
             if snd review \<noteq> ''COMMENTED'' then AList.update (fst review) (snd review) reviews
             else reviews)
       (reviews_fetched pr) []"

definition get_approved_by :: "GitHubPR \<Rightarrow> string list" where
  "get_approved_by pr = map fst (filter (\<lambda>review. snd review = ''APPROVED'') (get_reviews pr))"

text \<open>
  \<^verbatim>\<open>
  pr_checks = pr.get_checkrun_conclusions()
  land_validation_checks = get_land_checkrun_conclusions(...) if land_check_commit else {}
  merged_checks = {**pr_checks, **land_validation_checks}
  res = get_classifications(pr.last_commit()['oid'], pr.get_merge_base(), merged_checks)
  \<close>
  An empty commit string is false in Python, like \<open>None\<close>.
\<close>

definition get_combined_checks_from_pr_and_land_validation ::
  "world \<Rightarrow> GitHubPR \<Rightarrow> string option \<Rightarrow> error + JobNameToStateDict" where
  "get_combined_checks_from_pr_and_land_validation w pr land_check_commit =
     (let pr_checks = conclusions pr;
          land_validation_checks =
            (case land_check_commit of
               None \<Rightarrow> []
             | Some c \<Rightarrow> if c = [] then [] else land_checkrun_conclusions w c);
          merged_checks = fold (\<lambda>kv d. AList.update (fst kv) (snd kv) d) land_validation_checks pr_checks
      in get_classifications (last_commit_oid pr) (merge_base pr) merged_checks (get_flaky_rules w)
           (get_rockset_results w (last_commit_oid pr) (merge_base pr)))"

text \<open>
  \<^verbatim>\<open>
  def has_internal_changes(self):
      checkrun_name = "Meta Internal-Only Changes Check"
      if self.get_diff_revision() is None:
          return False
      checks = self.get_checkrun_conclusions()
      if checks is None or checkrun_name not in checks:
          return False
      return checks[checkrun_name].status != "SUCCESS"
  \<close>
\<close>

definition get_diff_revision :: "world \<Rightarrow> GitHubPR \<Rightarrow> string option" where
  "get_diff_revision w pr = re_diff_rev w (pr_body pr)"

definition has_internal_changes :: "world \<Rightarrow> GitHubPR \<Rightarrow> bool" where
  "has_internal_changes w pr =
     (case get_diff_revision w pr of
        None \<Rightarrow> False
      | Some _ \<Rightarrow>
          (case map_of (conclusions pr) ''Meta Internal-Only Changes Check'' of
             None \<Rightarrow> False
           | Some c \<Rightarrow> jcs_status c \<noteq> Some ''SUCCESS''))"

text \<open>
  \<open>str.split(sep)\<close> for a one-character separator, and the loop that builds
  \<open>rule_approvers_set\<close>:
  \<^verbatim>\<open>
  for approver in rule.approved_by:
      if "/" in approver:
          org, name = approver.split("/")
          rule_approvers_set.update(gh_get_team_members(org, name))
      else:
          rule_approvers_set.add(approver)
  \<close>
  The unpacking raises \<open>ValueError\<close> unless the split has exactly two parts. The set is
  kept as the list of what was added; only its elements and its emptiness are read.
\<close>

fun split_on :: "char \<Rightarrow> string \<Rightarrow> string list" where
  "split_on sep [] = [[]]"
| "split_on sep (c # cs) =
     (if c = sep then [] # split_on sep cs
      else (case split_on sep cs of [] \<Rightarrow> [[c]] | p # ps \<Rightarrow> (c # p) # ps))"

definition add_approver :: "world \<Rightarrow> string \<Rightarrow> string list \<Rightarrow> error + string list" where
  "add_approver w approver rule_approvers_set =
     (if CHR ''/'' \<in> set approver
      then (case split_on CHR ''/'' approver of
              [org, name] \<Rightarrow> Inr (rule_approvers_set @ gh_get_team_members w org name)
            | _ \<Rightarrow> Inl ValueError)
      else Inr (rule_approvers_set @ [approver]))"

fun rule_approvers :: "world \<Rightarrow> string list \<Rightarrow> string list \<Rightarrow> error + string list" where
  "rule_approvers w [] rule_approvers_set = Inr rule_approvers_set"
| "rule_approvers w (approver # rest) rule_approvers_set =
     (case add_approver w approver rule_approvers_set of
        Inl e \<Rightarrow> Inl e
      | Inr s \<Rightarrow> rule_approvers w rest s)"

text \<open>
  The body of \<open>for rule in rules\<close> in \<open>find_matching_merge_rule\<close>, gate by gate as in
  the source. It ends in \<open>continue\<close> with the running \<open>reject_reason_score\<close> and
  \<open>reject_reason\<close>, in \<open>return rule\<close>, or in a \<open>raise\<close>. The scores are those of the
  source: the number of matching files, 10000 for approvals, 30000 for failed and 20000
  for pending mandatory checks; a rejection replaces the running one only when its score
  is strictly higher (\<open>num_matching_files > reject_reason_score\<close>,
  \<open>reject_reason_score < 10000\<close>, and so on).
\<close>

datatype loop_exit = Continue int reason | Return MergeRule | Raise error

definition rule_body ::
  "world \<Rightarrow> GitHubPR \<Rightarrow> bool \<Rightarrow> bool \<Rightarrow> string list \<Rightarrow> string list \<Rightarrow> JobNameToStateDict \<Rightarrow>
     MergeRule \<Rightarrow> int \<times> reason \<Rightarrow> loop_exit" where
  "rule_body w pr skip_mandatory_checks skip_internal_checks changed_files approved_by checks rule acc =
     (let reject_reason_score = fst acc; reject_reason = snd acc;
          rule_name = mr_name rule;
          non_matching_files = filter (\<lambda>fname. \<not> patterns_match w (mr_patterns rule) fname) changed_files
      in
      if length non_matching_files > 0 then
        (let num_matching_files = int (length changed_files) - int (length non_matching_files) in
         if num_matching_files > reject_reason_score
         then Continue num_matching_files (NotAllFilesMatch rule_name num_matching_files non_matching_files)
         else Continue reject_reason_score reject_reason)
      else if length (mr_approved_by rule) > 0 \<and> length (remdups approved_by) = 0 then
        (if reject_reason_score < 10000
         then Continue 10000 (NotReviewed (pr_num pr) rule_name)
         else Continue reject_reason_score reject_reason)
      else
        (case rule_approvers w (mr_approved_by rule) [] of
           Inl e \<Rightarrow> Raise e
         | Inr rule_approvers_set \<Rightarrow>
             if \<not> list_ex (\<lambda>a. a \<in> set rule_approvers_set) approved_by
                \<and> length (remdups rule_approvers_set) > 0 then
               (if reject_reason_score < 10000
                then Continue 10000 (ApprovalNeeded rule_name (set rule_approvers_set))
                else Continue reject_reason_score reject_reason)
             else
               (let mandatory_checks =
                      (case mr_mandatory_checks_name rule of None \<Rightarrow> [] | Some m \<Rightarrow> m);
                    required_checks =
                      filter (\<lambda>x. sublist ''EasyCLA'' x \<or> \<not> skip_mandatory_checks) mandatory_checks;
                    pending_failed = categorize_checks checks required_checks 3;
                    pending_checks = fst pending_failed; failed_checks = snd pending_failed
                in
                if length failed_checks > 0 then
                  (if reject_reason_score < 30000
                   then Continue 30000 (ChecksFailed rule_name failed_checks)
                   else Continue reject_reason_score reject_reason)
                else if length pending_checks > 0 then
                  (if reject_reason_score < 20000
                   then Continue 20000 (ChecksPending rule_name pending_checks)
                   else Continue reject_reason_score reject_reason)
                else if \<not> skip_internal_checks \<and> has_internal_changes w pr
                then Raise (RuntimeError InternalChanges)
                else Return rule)))"

fun rules_loop ::
  "(MergeRule \<Rightarrow> int \<times> reason \<Rightarrow> loop_exit) \<Rightarrow> MergeRule list \<Rightarrow> int \<times> reason \<Rightarrow>
     (error + MergeRule) + (int \<times> reason)" where
  "rules_loop body [] acc = Inr acc"
| "rules_loop body (rule # rules) acc =
     (case body rule acc of
        Continue score r \<Rightarrow> rules_loop body rules (score, r)
      | Return found \<Rightarrow> Inl (Inr found)
      | Raise e \<Rightarrow> Inl (Inl e))"

text \<open>
  \<open>find_matching_merge_rule\<close>: the reads before the loop, the check for an empty rule
  file, the loop, and after it
  \<^verbatim>\<open>
  if reject_reason_score == 20000:
      raise MandatoryChecksMissingError(reject_reason, rule)
  raise RuntimeError(reject_reason)
  \<close>
  where \<open>rule\<close> is the loop variable, that is the last rule of the file.
\<close>

definition find_matching_merge_rule ::
  "world \<Rightarrow> GitHubPR \<Rightarrow> bool \<Rightarrow> bool \<Rightarrow> string option \<Rightarrow> error + MergeRule" where
  "find_matching_merge_rule w pr skip_mandatory_checks skip_internal_checks land_check_commit =
     (case get_changed_files pr of
        Inl e \<Rightarrow> Inl e
      | Inr changed_files \<Rightarrow>
          (let approved_by = get_approved_by pr in
           case get_combined_checks_from_pr_and_land_validation w pr land_check_commit of
             Inl e \<Rightarrow> Inl e
           | Inr checks \<Rightarrow>
               (let rules = merge_rules w in
                if rules = [] then Inl (RuntimeError NoRulesDefined)
                else
                  (case rules_loop
                          (rule_body w pr skip_mandatory_checks skip_internal_checks
                             changed_files approved_by checks)
                          rules (0, NoRuleFound) of
                     Inl res \<Rightarrow> res
                   | Inr final \<Rightarrow>
                       if fst final = 20000
                       then Inl (MandatoryChecksMissingError (snd final) (last rules))
                       else Inl (RuntimeError (snd final))))))"

text \<open>
  \<open>merge_into\<close> begins with the rule check
  \<^verbatim>\<open>
  find_matching_merge_rule(self, repo,
      skip_mandatory_checks=skip_mandatory_checks,
      skip_internal_checks=can_skip_internal_checks(self, comment_id),
      land_check_commit=land_check_commit)
  \<close>
  and merges only when it returns.
\<close>

definition merge_into_rule_check ::
  "world \<Rightarrow> GitHubPR \<Rightarrow> bool \<Rightarrow> int option \<Rightarrow> string option \<Rightarrow> error + MergeRule" where
  "merge_into_rule_check w pr skip_mandatory_checks comment_id land_check_commit =
     (case can_skip_internal_checks pr comment_id of
        Inl e \<Rightarrow> Inl e
      | Inr skip_internal_checks \<Rightarrow>
          find_matching_merge_rule w pr skip_mandatory_checks skip_internal_checks
            land_check_commit)"

text \<open>
  \<open>validate_revert\<close>. Its value is paired with the git queries it has run, in order:
  \<open>repo.commits_resolving_gh_pr\<close> and \<open>repo.commit_message\<close>.
  \<^verbatim>\<open>
  comment = pr.get_last_comment() if comment_id is None else pr.get_comment_by_id(comment_id)
  if comment.editor_login is not None:
      raise PostCommentError("Don't want to revert based on edited command")
  author_association = comment.author_association
  author_login = comment.author_login
  allowed_reverters = ["COLLABORATOR", "MEMBER", "OWNER"]
  # For some reason, one can not be a member of private repo, only CONTRIBUTOR
  if pr.is_base_repo_private():
      allowed_reverters.append("CONTRIBUTOR")
  if author_association not in allowed_reverters:
      raise PostCommentError(...)
  skip_internal_checks = can_skip_internal_checks(pr, comment_id)
  find_matching_merge_rule(pr, repo, skip_mandatory_checks=True,
                           skip_internal_checks=skip_internal_checks)
  commit_sha = pr.get_merge_commit()
  if commit_sha is None:
      commits = repo.commits_resolving_gh_pr(pr.pr_num)
      if len(commits) == 0:
          raise PostCommentError("Can't find any commits resolving PR")
      commit_sha = commits[0]
  msg = repo.commit_message(commit_sha)
  rc = RE_DIFF_REV.search(msg)
  if rc is not None and not skip_internal_checks:
      raise PostCommentError(...)
  return (author_login, commit_sha)
  \<close>
\<close>

datatype git_op = GitCommitsResolving int | GitCommitMessage string

definition triggering_comment :: "GitHubPR \<Rightarrow> int option \<Rightarrow> error + GitHubComment" where
  "triggering_comment pr comment_id =
     (case comment_id of None \<Rightarrow> get_last_comment pr | Some i \<Rightarrow> get_comment_by_id pr i)"

definition allowed_reverters :: "GitHubPR \<Rightarrow> string list" where
  "allowed_reverters pr =
     [''COLLABORATOR'', ''MEMBER'', ''OWNER'']
       @ (if base_repo_private pr then [''CONTRIBUTOR''] else [])"

definition validate_revert ::
  "world \<Rightarrow> GitHubPR \<Rightarrow> int option \<Rightarrow> (error + string \<times> string) \<times> git_op list" where
  "validate_revert w pr comment_id =
     (case triggering_comment pr comment_id of
        Inl e \<Rightarrow> (Inl e, [])
      | Inr comment \<Rightarrow>
          if editor_login comment \<noteq> None then (Inl (PostCommentError EditedCommand), [])
          else if author_association comment \<notin> set (allowed_reverters pr)
          then (Inl (PostCommentError
                  (NotAllowedReverter (author_login comment) (allowed_reverters pr)
                     (author_association comment))), [])
          else
            (case can_skip_internal_checks pr comment_id of
               Inl e \<Rightarrow> (Inl e, [])
             | Inr skip_internal_checks \<Rightarrow>
                 (case find_matching_merge_rule w pr True skip_internal_checks None of
                    Inl e \<Rightarrow> (Inl e, [])
                  | Inr _ \<Rightarrow>
                      (let found =
                             (case merge_commit pr of
                                Some sha \<Rightarrow> (Some sha, [])
                              | None \<Rightarrow>
                                  (case commits_resolving_gh_pr w (pr_num pr) of
                                     [] \<Rightarrow> (None, [GitCommitsResolving (pr_num pr)])
                                   | c # _ \<Rightarrow> (Some c, [GitCommitsResolving (pr_num pr)])))
                       in case fst found of
                            None \<Rightarrow> (Inl (PostCommentError NoCommitsResolving), snd found)
                          | Some commit_sha \<Rightarrow>
                              (case re_diff_rev w (commit_message w commit_sha) of
                                 Some diff_rev \<Rightarrow>
                                   if \<not> skip_internal_checks
                                   then (Inl (PostCommentError (LandedViaPhabricator diff_rev)),
                                         snd found @ [GitCommitMessage commit_sha])
                                   else (Inr (author_login comment, commit_sha),
                                         snd found @ [GitCommitMessage commit_sha])
                               | None \<Rightarrow> (Inr (author_login comment, commit_sha),
                                         snd found @ [GitCommitMessage commit_sha]))))))"



text \<open>
  The gates in the words of the specification. All changed files match the rule's
  patterns. The approvers gate passes when the rule lists no approvers, or the pull
  request has an approval and the expanded approver set of the rule is empty or meets
  the approvals. The checks gate passes when no required check is pending or failed.
  \<open>rejection\<close> is the score and text of the gate a rule fails first, and
  \<open>highest_rejection\<close> the first rejection with the highest score among those scoring
  above 0, or score 0 with the default text when there is none. \<open>pick\<close> is the update
  of the running rejection.
\<close>

definition all_files_match :: "world \<Rightarrow> GitHubPR \<Rightarrow> MergeRule \<Rightarrow> bool" where
  "all_files_match w pr rule = (\<forall>f\<in>set (files_fetched pr). patterns_match w (mr_patterns rule) f)"

definition well_formed_approver :: "string \<Rightarrow> bool" where
  "well_formed_approver a = (CHR ''/'' \<in> set a \<longrightarrow> length (split_on CHR ''/'' a) = 2)"

definition expand_approver :: "world \<Rightarrow> string \<Rightarrow> string set" where
  "expand_approver w a =
     (if CHR ''/'' \<in> set a
      then (case split_on CHR ''/'' a of [org, name] \<Rightarrow> set (gh_get_team_members w org name) | _ \<Rightarrow> {})
      else {a})"

definition expanded_approvers :: "world \<Rightarrow> MergeRule \<Rightarrow> string set" where
  "expanded_approvers w rule = (\<Union>a\<in>set (mr_approved_by rule). expand_approver w a)"

definition approvers_pass :: "world \<Rightarrow> GitHubPR \<Rightarrow> MergeRule \<Rightarrow> bool" where
  "approvers_pass w pr rule =
     (mr_approved_by rule = [] \<or>
      (get_approved_by pr \<noteq> [] \<and>
       (expanded_approvers w rule = {} \<or> set (get_approved_by pr) \<inter> expanded_approvers w rule \<noteq> {})))"

definition required_checks_of :: "bool \<Rightarrow> MergeRule \<Rightarrow> string list" where
  "required_checks_of skip_mandatory_checks rule =
     filter (\<lambda>x. sublist ''EasyCLA'' x \<or> \<not> skip_mandatory_checks)
       (case mr_mandatory_checks_name rule of None \<Rightarrow> [] | Some m \<Rightarrow> m)"

definition checks_pass :: "bool \<Rightarrow> JobNameToStateDict \<Rightarrow> MergeRule \<Rightarrow> bool" where
  "checks_pass skip_mandatory_checks checks rule =
     (categorize_checks checks (required_checks_of skip_mandatory_checks rule) 3 = ([], []))"

definition rule_passes :: "world \<Rightarrow> GitHubPR \<Rightarrow> bool \<Rightarrow> JobNameToStateDict \<Rightarrow> MergeRule \<Rightarrow> bool" where
  "rule_passes w pr skip_mandatory_checks checks rule =
     (all_files_match w pr rule \<and> approvers_pass w pr rule \<and> checks_pass skip_mandatory_checks checks rule)"

definition rejection ::
  "world \<Rightarrow> GitHubPR \<Rightarrow> bool \<Rightarrow> JobNameToStateDict \<Rightarrow> MergeRule \<Rightarrow> int \<times> reason" where
  "rejection w pr skip_mandatory_checks checks rule =
     (let matching = filter (patterns_match w (mr_patterns rule)) (files_fetched pr);
          non_matching = filter (\<lambda>f. \<not> patterns_match w (mr_patterns rule) f) (files_fetched pr);
          pending_failed = categorize_checks checks (required_checks_of skip_mandatory_checks rule) 3
      in if \<not> all_files_match w pr rule
         then (int (length matching), NotAllFilesMatch (mr_name rule) (int (length matching)) non_matching)
         else if \<not> approvers_pass w pr rule
         then (10000, if get_approved_by pr = [] then NotReviewed (pr_num pr) (mr_name rule)
                      else ApprovalNeeded (mr_name rule) (expanded_approvers w rule))
         else if snd pending_failed \<noteq> []
         then (30000, ChecksFailed (mr_name rule) (snd pending_failed))
         else (20000, ChecksPending (mr_name rule) (fst pending_failed)))"

definition highest_rejection :: "(int \<times> reason) list \<Rightarrow> int \<times> reason" where
  "highest_rejection rs =
     (case find (\<lambda>sr. 0 < fst sr \<and> (\<forall>sr'\<in>set rs. fst sr' \<le> fst sr)) rs of
        None \<Rightarrow> (0, NoRuleFound)
      | Some sr \<Rightarrow> sr)"


definition pick :: "int \<times> reason \<Rightarrow> int \<times> reason \<Rightarrow> int \<times> reason" where
  "pick sr acc = (if fst sr > fst acc then sr else acc)"

section \<open>Commit messages: \<open>RE_PR_CC_LINE\<close>, \<open>RE_GHSTACK_DESC\<close> and \<open>gen_commit_message\<close>\<close>

text \<open>
  \<^verbatim>\<open>
  RE_GHSTACK_DESC = re.compile(r'Stack.*:\r?\n(\* [^\r\n]+\r?\n)+', re.MULTILINE)
  RE_PR_CC_LINE = re.compile(r'^cc:? @\w+.*\r?\n?$', re.MULTILINE)
  \<close>
  Both patterns are matched here by hand, as Python's backtracking matcher decides them.
  \<open>LF\<close> and \<open>CR\<close> are the line feed and the carriage return; \<open>.\<close> matches every
  character but \<open>LF\<close>. \<open>is_word\<close> is \<open>\w\<close> on ASCII: letters, digits and the
  underscore.
\<close>

definition LF :: char where "LF = CHR 0x0A"
definition CR :: char where "CR = CHR 0x0D"

definition is_word :: "char \<Rightarrow> bool" where
  "is_word c =
     (let n = (of_char c :: nat)
      in (48 \<le> n \<and> n \<le> 57) \<or> (65 \<le> n \<and> n \<le> 90) \<or> n = 95 \<or> (97 \<le> n \<and> n \<le> 122))"

text \<open>
  \<open>RE_PR_CC_LINE\<close> at the start of a line. \<open>cc_head\<close> is \<open>cc:? @\<close>: after \<open>cc\<close> the
  colon is taken when it is there, and the alternative without it cannot match then.
  \<open>cc_prefix\<close> adds the first \<open>\w\<close>. From there \<open>\w+.*\<close> runs to the end of the line,
  which leaves nothing for \<open>\r?\<close>. \<open>\n?\<close> takes the line feed when \<open>$\<close> holds after
  it, that is at the end of the text or before another line feed; otherwise it takes
  nothing and \<open>$\<close> holds before the line feed. The value of \<open>match_cc\<close> is the text
  after the match, with whether it starts a line.
\<close>

definition cc_head :: "string \<Rightarrow> string option" where
  "cc_head s =
     (if prefix ''cc: @'' s then Some (drop 5 s)
      else if prefix ''cc @'' s then Some (drop 4 s)
      else None)"

definition cc_prefix :: "string \<Rightarrow> string option" where
  "cc_prefix s =
     (case cc_head s of
        None \<Rightarrow> None
      | Some [] \<Rightarrow> None
      | Some (c # u) \<Rightarrow> if is_word c then Some u else None)"

definition match_cc :: "string \<Rightarrow> (string \<times> bool) option" where
  "match_cc s =
     (case cc_prefix s of
        None \<Rightarrow> None
      | Some u \<Rightarrow>
          (let t = dropWhile (\<lambda>c. c \<noteq> LF) u in
           case t of
             [] \<Rightarrow> Some ([], False)
           | nl # r \<Rightarrow>
               (case r of
                  [] \<Rightarrow> Some (r, True)
                | c # _ \<Rightarrow> if c = LF then Some (r, True) else Some (t, False))))"

text \<open>
  \<open>re.sub(RE_PR_CC_LINE, "", body)\<close>: scan from the left; \<open>^\<close> holds at the start of
  the text and after each line feed (\<open>bol\<close>); a match is dropped and the scan goes on
  after it, otherwise the character is kept. A match is never empty.
\<close>

function sub_cc :: "bool \<Rightarrow> string \<Rightarrow> string" where
  "sub_cc bol [] = []"
| "sub_cc bol (c # cs) =
     (case (if bol then match_cc (c # cs) else None) of
        Some m \<Rightarrow> sub_cc (snd m) (fst m)
      | None \<Rightarrow> c # sub_cc (c = LF) cs)"
  by pat_completeness auto
termination
proof (relation "measure (\<lambda>p. length (snd p))")
  show "wf (measure (\<lambda>p. length (snd p)))" by simp
next
  fix bol :: bool and c :: char and cs :: string and m :: "string \<times> bool"
  assume "(if bol then match_cc (c # cs) else None) = Some m"
  then have m: "match_cc (c # cs) = Some m" by (simp split: if_splits)
  then obtain u where u: "cc_prefix (c # cs) = Some u"
    by (auto simp: match_cc_def split: option.splits)
  have dl: "length y < length x" if "drop n x = a # y" for n a and x y :: string
    using arg_cong [OF that, of length] by simp
  from u have "length u < length (c # cs)"
    by (auto simp: cc_prefix_def cc_head_def split: option.splits list.splits if_splits dest: dl)
  moreover have "length (dropWhile (\<lambda>c. c \<noteq> LF) u) \<le> length u"
    by (rule length_dropWhile_le)
  moreover from m u have "length (fst m) \<le> length (dropWhile (\<lambda>c. c \<noteq> LF) u)"
    by (auto simp: match_cc_def Let_def split: list.splits if_splits)
  ultimately show "((snd m, fst m), (bol, c # cs)) \<in> measure (\<lambda>p. length (snd p))"
    by simp
next
  fix bol :: bool and c :: char and cs :: string
  show "((c = LF, cs), (bol, c # cs)) \<in> measure (\<lambda>p. length (snd p))" by simp
qed

text \<open>
  \<open>RE_GHSTACK_DESC\<close>. One bullet \<open>\* [^\r\n]+\r?\n\<close>: star, space, at least one
  character that is neither \<open>CR\<close> nor \<open>LF\<close> up to the first that is, an optional
  \<open>CR\<close>, and \<open>LF\<close>. \<open>bullets\<close> takes as many further bullets as there are. The
  header \<open>Stack.*:\r?\n\<close>: the rest of the line after \<open>Stack\<close> must end with a colon
  or with a colon and \<open>CR\<close>, and the line must end with \<open>LF\<close>.
\<close>

definition match_bullet :: "string \<Rightarrow> string option" where
  "match_bullet s =
     (if prefix ''* '' s then
        (let t = drop 2 s;
             item = takeWhile (\<lambda>c. c \<noteq> CR \<and> c \<noteq> LF) t;
             t1 = dropWhile (\<lambda>c. c \<noteq> CR \<and> c \<noteq> LF) t;
             t2 = (case t1 of [] \<Rightarrow> t1 | c # u \<Rightarrow> if c = CR then u else t1)
         in if item = [] then None
            else (case t2 of [] \<Rightarrow> None | c # u \<Rightarrow> if c = LF then Some u else None))
      else None)"

function bullets :: "string \<Rightarrow> string" where
  "bullets s = (case match_bullet s of None \<Rightarrow> s | Some r \<Rightarrow> bullets r)"
  by pat_completeness auto
termination
proof (relation "measure length")
  show "wf (measure length)" by simp
next
  fix s r :: string
  assume "match_bullet s = Some r"
  then have "length r < length (dropWhile (\<lambda>c. c \<noteq> CR \<and> c \<noteq> LF) (drop 2 s))"
    by (auto simp: match_bullet_def Let_def split: if_splits list.splits)
  moreover have "length (dropWhile (\<lambda>c. c \<noteq> CR \<and> c \<noteq> LF) (drop 2 s)) \<le> length s"
    using length_dropWhile_le [of "\<lambda>c. c \<noteq> CR \<and> c \<noteq> LF" "drop 2 s"] by simp
  ultimately show "(r, s) \<in> measure length" by auto
qed

declare bullets.simps [simp del]

definition match_header :: "string \<Rightarrow> string option" where
  "match_header s =
     (if prefix ''Stack'' s then
        (let t = drop 5 s;
             line = takeWhile (\<lambda>c. c \<noteq> LF) t;
             rest = dropWhile (\<lambda>c. c \<noteq> LF) t
         in case rest of
              [] \<Rightarrow> None
            | nl # after \<Rightarrow>
                if suffix '':'' line \<or> suffix [CHR '':'', CR] line then Some after else None)
      else None)"

definition match_ghstack :: "string \<Rightarrow> string option" where
  "match_ghstack s =
     (case match_header s of
        None \<Rightarrow> None
      | Some t \<Rightarrow> (case match_bullet t of None \<Rightarrow> None | Some u \<Rightarrow> Some (bullets u)))"


text \<open>\<open>re.sub(RE_GHSTACK_DESC, "", msg_body)\<close>.\<close>

function sub_ghstack :: "string \<Rightarrow> string" where
  "sub_ghstack [] = []"
| "sub_ghstack (c # cs) =
     (case match_ghstack (c # cs) of
        Some rest \<Rightarrow> sub_ghstack rest
      | None \<Rightarrow> c # sub_ghstack cs)"
  by pat_completeness auto
termination
proof (relation "measure length")
  show "wf (measure length)" by simp
next
  fix c :: char and cs rest :: string
  assume "match_ghstack (c # cs) = Some rest"
  then obtain t u where t: "match_header (c # cs) = Some t" and u: "match_bullet t = Some u"
    and r: "rest = bullets u"
    by (auto simp: match_ghstack_def split: option.splits)
  have b: "length (bullets x) \<le> length x" for x
  proof (induction x rule: bullets.induct)
    case (1 s)
    show ?case
    proof (cases "match_bullet s")
      case None
      then show ?thesis by (simp add: bullets.simps [of s])
    next
      case (Some y)
      then have "length y < length (dropWhile (\<lambda>c. c \<noteq> CR \<and> c \<noteq> LF) (drop 2 s))"
        by (auto simp: match_bullet_def Let_def split: if_splits list.splits)
      moreover have "length (dropWhile (\<lambda>c. c \<noteq> CR \<and> c \<noteq> LF) (drop 2 s)) \<le> length s"
        using length_dropWhile_le [of "\<lambda>c. c \<noteq> CR \<and> c \<noteq> LF" "drop 2 s"] by simp
      ultimately show ?thesis using "1.IH" [OF Some] Some by (simp add: bullets.simps [of s])
    qed
  qed
  from u have "length u < length (dropWhile (\<lambda>c. c \<noteq> CR \<and> c \<noteq> LF) (drop 2 t))"
    by (auto simp: match_bullet_def Let_def split: if_splits list.splits)
  moreover have "length (dropWhile (\<lambda>c. c \<noteq> CR \<and> c \<noteq> LF) (drop 2 t)) \<le> length t"
    using length_dropWhile_le [of "\<lambda>c. c \<noteq> CR \<and> c \<noteq> LF" "drop 2 t"] by simp
  moreover from t have "length t \<le> length (dropWhile (\<lambda>c. c \<noteq> LF) (drop 5 (c # cs)))"
    by (auto simp: match_header_def Let_def split: if_splits list.splits)
  moreover have "length (dropWhile (\<lambda>c. c \<noteq> LF) (drop 5 (c # cs))) \<le> length (c # cs)"
    using length_dropWhile_le [of "\<lambda>c. c \<noteq> LF" "drop 5 (c # cs)"] by simp
  ultimately show "(rest, c # cs) \<in> measure length"
    using b [of u] r by simp
next
  fix c :: char and cs :: string
  show "(cs, c # cs) \<in> measure length" by simp
qed

text \<open>
  \<^verbatim>\<open>
  def gen_commit_message(self, filter_ghstack=False):
      approved_by_urls = ', '.join(prefix_with_github_url(login) for login in self.get_approved_by())
      msg_body = re.sub(RE_PR_CC_LINE, "", self.get_body())
      if filter_ghstack:
          msg_body = re.sub(RE_GHSTACK_DESC, "", msg_body)
      msg = self.get_title() + f" (#{self.pr_num})\n\n"
      msg += msg_body
      msg += f"\nPull Request resolved: {self.get_pr_url()}\n"
      msg += f"Approved by: {approved_by_urls}\n"
      return msg
  \<close>
  \<open>strip_body\<close> is the two lines that compute \<open>msg_body\<close>.
\<close>

definition str_int :: "int \<Rightarrow> string" where
  "str_int n = (if n < 0 then ''-'' @ str_nat (nat (- n)) else str_nat (nat n))"

fun join :: "string \<Rightarrow> string list \<Rightarrow> string" where
  "join sep [] = []"
| "join sep [x] = x"
| "join sep (x # y # ys) = x @ sep @ join sep (y # ys)"

definition prefix_with_github_url :: "string \<Rightarrow> string" where
  "prefix_with_github_url suffix_str = ''https://github.com/'' @ suffix_str"

definition strip_body :: "bool \<Rightarrow> string \<Rightarrow> string" where
  "strip_body filter_ghstack body =
     (let msg_body = sub_cc True body in
      if filter_ghstack then sub_ghstack msg_body else msg_body)"

definition get_pr_url :: "GitHubPR \<Rightarrow> string" where
  "get_pr_url pr =
     ''https://github.com/'' @ pr_org pr @ ''/'' @ pr_project pr @ ''/pull/'' @ str_int (pr_num pr)"

definition gen_commit_message :: "GitHubPR \<Rightarrow> bool \<Rightarrow> string" where
  "gen_commit_message pr filter_ghstack =
     (let approved_by_urls = join '', '' (map prefix_with_github_url (get_approved_by pr));
          msg_body = strip_body filter_ghstack (pr_body pr)
      in pr_title pr @ '' (#'' @ str_int (pr_num pr) @ '')'' @ [LF, LF]
         @ msg_body
         @ [LF] @ ''Pull Request resolved: '' @ get_pr_url pr @ [LF]
         @ ''Approved by: '' @ approved_by_urls @ [LF])"

section \<open>Example data\<close>

definition bot_comment :: GitHubComment where
  "bot_comment = \<lparr>body_text = ''@pytorchbot merge'', created_at = ''2022-10-01T00:00:00Z'',
     author_login = ''facebook-github-bot'', author_association = ''MEMBER'',
     editor_login = None, database_id = 42\<rparr>"

definition outsider_comment :: GitHubComment where
  "outsider_comment = \<lparr>body_text = ''@pytorchbot revert -m x'', created_at = ''2022-10-02T00:00:00Z'',
     author_login = ''mallory'', author_association = ''NONE'',
     editor_login = None, database_id = 43\<rparr>"

definition example_pr :: GitHubPR where
  "example_pr = \<lparr>pr_org = ''acme'', pr_project = ''proj'', pr_num = 1001,
     pr_title = ''Title'', pr_body = ''Body'', base_repo_private = False,
     last_commit_oid = ''aaa'', merge_base = ''bbb'',
     comment_nodes = [bot_comment, outsider_comment], prev_comments = [],
     files_fetched = [''core/a.py'', ''core/b.py''], changed_files_count = 2,
     reviews_fetched = [(''alice'', ''APPROVED'')],
     labels = [''merged'', ''ciflow/trunk'', ''mergedX2''],
     conclusions = [(''pull / linux-test'',
        \<lparr>jcs_name = ''pull / linux-test'', jcs_url = ''u1'', jcs_status = Some ''SUCCESS'',
          jcs_classification = None\<rparr>)],
     merge_commit = None\<rparr>"

definition example_checks :: JobNameToStateDict where
  "example_checks =
     [(''pull / linux-test'',
        \<lparr>jcs_name = ''pull / linux-test'', jcs_url = ''u1'', jcs_status = None,
          jcs_classification = None\<rparr>),
      (''pull / lint'',
        \<lparr>jcs_name = ''pull / lint'', jcs_url = ''u2'', jcs_status = Some ''FAILURE'',
          jcs_classification = Some ''FLAKY''\<rparr>),
      (''pull / linux-build'',
        \<lparr>jcs_name = ''pull / linux-build'', jcs_url = ''u3'', jcs_status = Some ''FAILURE'',
          jcs_classification = None\<rparr>),
      (''pull / docs'',
        \<lparr>jcs_name = ''pull / docs'', jcs_url = ''u4'', jcs_status = Some ''FAILURE'',
          jcs_classification = None\<rparr>)]"

definition failing_checks :: JobNameToStateDict where
  "failing_checks =
     [(''pull / linux-test'',
        \<lparr>jcs_name = ''pull / linux-test'', jcs_url = ''u1'', jcs_status = Some ''FAILURE'',
          jcs_classification = None\<rparr>),
      (''pull / lint'',
        \<lparr>jcs_name = ''pull / lint'', jcs_url = ''u2'', jcs_status = Some ''FAILURE'',
          jcs_classification = None\<rparr>),
      (''pull / linux-build'',
        \<lparr>jcs_name = ''pull / linux-build'', jcs_url = ''u3'', jcs_status = Some ''FAILURE'',
          jcs_classification = None\<rparr>),
      (''pull / docs'',
        \<lparr>jcs_name = ''pull / docs'', jcs_url = ''u4'', jcs_status = Some ''FAILURE'',
          jcs_classification = None\<rparr>),
      (''pull / ok'',
        \<lparr>jcs_name = ''pull / ok'', jcs_url = ''u5'', jcs_status = Some ''SUCCESS'',
          jcs_classification = None\<rparr>)]"

definition classified_checks :: JobNameToStateDict where
  "classified_checks =
     [(''pull / linux-test'',
        \<lparr>jcs_name = ''pull / linux-test'', jcs_url = ''u1'', jcs_status = Some ''FAILURE'',
          jcs_classification = Some ''BROKEN_TRUNK''\<rparr>),
      (''pull / lint'',
        \<lparr>jcs_name = ''pull / lint'', jcs_url = ''u2'', jcs_status = Some ''FAILURE'',
          jcs_classification = Some ''FLAKY''\<rparr>),
      (''pull / linux-build'',
        \<lparr>jcs_name = ''pull / linux-build'', jcs_url = ''u3'', jcs_status = Some ''FAILURE'',
          jcs_classification = Some ''FLAKY''\<rparr>),
      (''pull / docs'',
        \<lparr>jcs_name = ''pull / docs'', jcs_url = ''u4'', jcs_status = Some ''FAILURE'',
          jcs_classification = None\<rparr>),
      (''pull / ok'',
        \<lparr>jcs_name = ''pull / ok'', jcs_url = ''u5'', jcs_status = Some ''SUCCESS'',
          jcs_classification = None\<rparr>)]"

definition example_rockset_results :: "job list" where
  "example_rockset_results =
     [\<lparr>job_workflow_name = ''pull'', job_id = 10, job_name = ''linux-test'', job_conclusion = Some ''failure'',
        job_head_sha = ''aaa'', job_failure_captures = Some [''timeout''], job_steps = 5\<rparr>,
      \<lparr>job_workflow_name = ''pull'', job_id = 11, job_name = ''linux-test'', job_conclusion = Some ''failure'',
        job_head_sha = ''bbb'', job_failure_captures = Some [''timeout''], job_steps = 6\<rparr>,
      \<lparr>job_workflow_name = ''pull'', job_id = 12, job_name = ''lint'', job_conclusion = Some ''failure'',
        job_head_sha = ''aaa'', job_failure_captures = None, job_steps = 1\<rparr>,
      \<lparr>job_workflow_name = ''pull'', job_id = 13, job_name = ''linux-build'', job_conclusion = Some ''failure'',
        job_head_sha = ''aaa'', job_failure_captures = Some [''No space left''], job_steps = 4\<rparr>,
      \<lparr>job_workflow_name = ''pull'', job_id = 14, job_name = ''docs'', job_conclusion = Some ''failure'',
        job_head_sha = ''aaa'', job_failure_captures = None, job_steps = 4\<rparr>,
      \<lparr>job_workflow_name = ''pull'', job_id = 15, job_name = ''ok'', job_conclusion = Some ''success'',
        job_head_sha = ''aaa'', job_failure_captures = None, job_steps = 4\<rparr>]"

definition example_flaky_rules :: "FlakyRule list" where
  "example_flaky_rules = [\<lparr>fr_name = ''build'', fr_captures = [''No space left'']\<rparr>]"

definition cancelled_run :: checksuite where
  "cancelled_run = \<lparr>cs_workflow_run = Some \<lparr>wr_workflow_name = ''pull'', wr_url = ''run/1''\<rparr>,
     cs_conclusion = Some ''CANCELLED'', cs_checkruns = []\<rparr>"

definition failed_run :: checksuite where
  "failed_run = \<lparr>cs_workflow_run = Some \<lparr>wr_workflow_name = ''pull'', wr_url = ''run/3''\<rparr>,
     cs_conclusion = Some ''FAILURE'',
     cs_checkruns = [[Some \<lparr>cr_name = ''build'', cr_conclusion = Some ''FAILURE'',
        cr_details_url = ''job/3''\<rparr>]]\<rparr>"

definition green_rerun :: checksuite where
  "green_rerun = \<lparr>cs_workflow_run = Some \<lparr>wr_workflow_name = ''pull'', wr_url = ''run/4''\<rparr>,
     cs_conclusion = Some ''SUCCESS'',
     cs_checkruns = [[Some \<lparr>cr_name = ''build'', cr_conclusion = Some ''SUCCESS'',
        cr_details_url = ''job/4''\<rparr>]]\<rparr>"

definition successful_rerun :: checksuite where
  "successful_rerun = \<lparr>cs_workflow_run = Some \<lparr>wr_workflow_name = ''pull'', wr_url = ''run/2''\<rparr>,
     cs_conclusion = Some ''SUCCESS'', cs_checkruns = []\<rparr>"

text \<open>
  In the examples \<open>prefix_match\<close> stands in for the compiled patterns: a file matches
  when one of the patterns is a prefix of its path.
\<close>

definition prefix_match :: "string list \<Rightarrow> string \<Rightarrow> bool" where
  "prefix_match patterns fname = list_ex (\<lambda>p. prefix p fname) patterns"

definition core_rule :: MergeRule where
  "core_rule = \<lparr>mr_name = ''core'', mr_patterns = [''core/''], mr_approved_by = [''alice''],
     mr_mandatory_checks_name = Some [''pull'', ''EasyCLA'']\<rparr>"

definition docs_rule :: MergeRule where
  "docs_rule = \<lparr>mr_name = ''docs'', mr_patterns = [''docs/''], mr_approved_by = [],
     mr_mandatory_checks_name = None\<rparr>"

definition ghost_rule :: MergeRule where
  "ghost_rule = \<lparr>mr_name = ''ghosts'', mr_patterns = [''core/''], mr_approved_by = [''acme/ghosts''],
     mr_mandatory_checks_name = None\<rparr>"

definition example_world :: world where
  "example_world = \<lparr>merge_rules = [docs_rule, core_rule], patterns_match = prefix_match,
     gh_get_team_members = (\<lambda>org name. []), land_checkrun_conclusions = (\<lambda>commit. []),
     get_flaky_rules = [], get_rockset_results = (\<lambda>head_sha base. []),
     re_diff_rev = (\<lambda>msg. if msg = ''Differential Revision: D123'' then Some ''D123'' else None),
     commits_resolving_gh_pr = (\<lambda>n. []), commit_message = (\<lambda>sha. [])\<rparr>"

definition ghost_world :: world where
  "ghost_world = example_world\<lparr>merge_rules := [ghost_rule]\<rparr>"

definition docs_world :: world where
  "docs_world = example_world\<lparr>merge_rules := [docs_rule]\<rparr>"

definition easycla_check :: "string \<times> JobCheckState" where
  "easycla_check = (''EasyCLA'', \<lparr>jcs_name = ''EasyCLA'', jcs_url = ''u0'',
     jcs_status = Some ''SUCCESS'', jcs_classification = None\<rparr>)"

definition internal_check :: "string \<times> JobCheckState" where
  "internal_check = (''Meta Internal-Only Changes Check'',
     \<lparr>jcs_name = ''Meta Internal-Only Changes Check'', jcs_url = ''u9'',
       jcs_status = Some ''FAILURE'', jcs_classification = None\<rparr>)"

definition green_pr :: GitHubPR where
  "green_pr = example_pr\<lparr>conclusions := conclusions example_pr @ [easycla_check]\<rparr>"

definition internal_pr :: GitHubPR where
  "internal_pr = example_pr\<lparr>pr_body := ''Differential Revision: D123'',
     conclusions := conclusions example_pr @ [easycla_check, internal_check]\<rparr>"


definition edited_comment :: GitHubComment where
  "edited_comment = \<lparr>body_text = ''@pytorchbot revert -m broke trunk'',
     created_at = ''2022-10-03T00:00:00Z'', author_login = ''alice'',
     author_association = ''MEMBER'', editor_login = Some ''alice'', database_id = 44\<rparr>"

definition edited_pr :: GitHubPR where
  "edited_pr = green_pr\<lparr>comment_nodes := [edited_comment]\<rparr>"

definition two_stacks_body :: string where
  "two_stacks_body = ''Stack A:\<newline>*Stack B:\<newline>* x\<newline> y\<newline>''"

definition cc_body :: string where
  "cc_body = ''Fix the build\<newline>cc @alice @bob\<newline>cc: @carol\<newline>\<newline>Details\<newline>cc @dave''"

section \<open>Theorems\<close>

subsection \<open>Historical-job insertion\<close>

text \<open>
  C6. Inserting a record under a key not yet present stores it; under a repeated key a
  stored record whose conclusion is \<open>success\<close> is never replaced; otherwise the new
  record replaces the stored one exactly when its id is strictly higher, so the record
  with the higher id is kept (the stored one on a tie). Other keys are not touched.
\<close>

theorem insert_job_rule:
  "map_of (insert_job d key val) key =
     (case map_of d key of
        None \<Rightarrow> Some val
      | Some old \<Rightarrow>
          if job_conclusion old = Some ''success'' then Some old
          else if job_id old < job_id val then Some val
          else Some old)
   \<and> (\<forall>k. k \<noteq> key \<longrightarrow> map_of (insert_job d key val) k = map_of d k)"
  by (auto simp: insert_job_def update_conv' split: option.splits)

theorem insert_job_rule_witness:
  "map_of (insert_job [(''pull / a'', \<lparr>job_workflow_name = ''pull'', job_id = 5, job_name = ''a'',
        job_conclusion = Some ''failure'', job_head_sha = ''h'', job_failure_captures = None,
        job_steps = 3\<rparr>)] ''pull / a''
      \<lparr>job_workflow_name = ''pull'', job_id = 7, job_name = ''a'',
        job_conclusion = Some ''failure'', job_head_sha = ''h'', job_failure_captures = None,
        job_steps = 2\<rparr>) ''pull / a''
     = Some \<lparr>job_workflow_name = ''pull'', job_id = 7, job_name = ''a'',
        job_conclusion = Some ''failure'', job_head_sha = ''h'', job_failure_captures = None,
        job_steps = 2\<rparr>
   \<and> ''pull / b'' \<noteq> ''pull / a''
   \<and> map_of (insert_job [(''pull / a'', \<lparr>job_workflow_name = ''pull'', job_id = 5, job_name = ''a'',
        job_conclusion = Some ''failure'', job_head_sha = ''h'', job_failure_captures = None,
        job_steps = 3\<rparr>)] ''pull / a''
      \<lparr>job_workflow_name = ''pull'', job_id = 7, job_name = ''a'',
        job_conclusion = Some ''failure'', job_head_sha = ''h'', job_failure_captures = None,
        job_steps = 2\<rparr>) ''pull / b'' = None"
  using insert_job_rule [of "[(''pull / a'', \<lparr>job_workflow_name = ''pull'', job_id = 5, job_name = ''a'',
        job_conclusion = Some ''failure'', job_head_sha = ''h'', job_failure_captures = None,
        job_steps = 3\<rparr>)]" "''pull / a''"
      "\<lparr>job_workflow_name = ''pull'', job_id = 7, job_name = ''a'',
        job_conclusion = Some ''failure'', job_head_sha = ''h'', job_failure_captures = None,
        job_steps = 2\<rparr>"]
  by simp

subsection \<open>Flaky rules\<close>

text \<open>
  C7 (as the code has it). A flaky rule matches a job if and only if the job is present,
  the rule's name is a substring of the job's name, the job's \<open>failure_captures\<close> is
  present (not null), and every capture of the rule is an element of it. In particular
  a rule with no captures matches every job whose name contains the rule's name and
  whose \<open>failure_captures\<close> is not null.
\<close>

theorem matches_iff:
  "(matches rule j \<longleftrightarrow>
      (\<exists>jb caps. j = Some jb \<and> sublist (fr_name rule) (job_name jb) \<and>
         job_failure_captures jb = Some caps \<and> set (fr_captures rule) \<subseteq> set caps))
   \<and> (fr_captures rule = [] \<longrightarrow> sublist (fr_name rule) (job_name jb) \<longrightarrow>
        job_failure_captures jb \<noteq> None \<longrightarrow> matches rule (Some jb))"
  by (auto simp: matches_def list_all_iff split: option.splits)

theorem matches_iff_witness:
  "fr_captures \<lparr>fr_name = ''test'', fr_captures = []\<rparr> = []
   \<and> sublist ''test'' ''linux-test''
   \<and> Some [''timeout''] \<noteq> None
   \<and> matches \<lparr>fr_name = ''test'', fr_captures = []\<rparr>
        (Some \<lparr>job_workflow_name = ''pull'', job_id = 1, job_name = ''linux-test'',
           job_conclusion = Some ''failure'', job_head_sha = ''abc'',
           job_failure_captures = Some [''timeout''], job_steps = 4\<rparr>)"
  using matches_iff [of "\<lparr>fr_name = ''test'', fr_captures = []\<rparr>" None
      "\<lparr>job_workflow_name = ''pull'', job_id = 1, job_name = ''linux-test'',
           job_conclusion = Some ''failure'', job_head_sha = ''abc'',
           job_failure_captures = Some [''timeout''], job_steps = 4\<rparr>"]
  by (simp add: sublist_code)

text \<open>
  The claim as the specification words it fails: the rule below has no captures and its
  name is a substring of the job's name, yet it does not match, because the job's
  \<open>failure_captures\<close> is null.
\<close>

theorem matches_null_captures_counterexample:
  "fr_captures \<lparr>fr_name = ''test'', fr_captures = []\<rparr> = []
   \<and> sublist (fr_name \<lparr>fr_name = ''test'', fr_captures = []\<rparr>) ''linux-test''
   \<and> \<not> matches \<lparr>fr_name = ''test'', fr_captures = []\<rparr>
        (Some \<lparr>job_workflow_name = ''pull'', job_id = 1, job_name = ''linux-test'',
           job_conclusion = Some ''failure'', job_head_sha = ''abc'',
           job_failure_captures = None, job_steps = 4\<rparr>)"
  by (simp add: matches_def sublist_code)

subsection \<open>Numbered labels\<close>

lemma digit_char_inj: "a < 10 \<Longrightarrow> b < 10 \<Longrightarrow> digit_char a = digit_char b \<Longrightarrow> a = b"
proof -
  assume a: "a < 10" and b: "b < 10" and e: "digit_char a = digit_char b"
  from e have "(of_char (char_of (48 + a) :: char) :: nat) = of_char (char_of (48 + b) :: char)"
    by (simp add: digit_char_def)
  with a b show "a = b" by simp
qed

lemma str_nat_nonempty: "str_nat n \<noteq> []"
  by (subst str_nat.simps) simp

lemma str_nat_inj: "str_nat a = str_nat b \<Longrightarrow> a = b"
proof (induction a arbitrary: b rule: str_nat.induct)
  case (1 a)
  show ?case
  proof (cases "a < 10")
    case True
    show ?thesis
    proof (cases "b < 10")
      case True
      with \<open>a < 10\<close> "1.prems" show ?thesis
        by (simp add: str_nat.simps [of a] str_nat.simps [of b] digit_char_inj)
    next
      case False
      with \<open>a < 10\<close> "1.prems" str_nat_nonempty [of "b div 10"] show ?thesis
        by (simp add: str_nat.simps [of a] str_nat.simps [of b])
    qed
  next
    case False
    show ?thesis
    proof (cases "b < 10")
      case True
      with False "1.prems" str_nat_nonempty [of "a div 10"] show ?thesis
        by (simp add: str_nat.simps [of a] str_nat.simps [of b])
    next
      case nb: False
      with False "1.prems" have e1: "str_nat (a div 10) = str_nat (b div 10)"
        and e2: "digit_char (a mod 10) = digit_char (b mod 10)"
        by (simp_all add: str_nat.simps [of a] str_nat.simps [of b])
      from "1.IH" [OF False e1] have "a div 10 = b div 10" .
      moreover from e2 have "a mod 10 = b mod 10" by (simp add: digit_char_inj)
      ultimately show ?thesis by (metis div_mult_mod_eq)
    qed
  qed
qed

lemma candidate_inj: "candidate b j = candidate b k \<Longrightarrow> j = k"
  by (auto simp: candidate_def split: if_splits dest: str_nat_inj)

text \<open>
  Loop invariant: the label held after \<open>i\<close> iterations is one of the first \<open>i + 1\<close>
  candidates, and if it is still taken then every candidate up to \<open>i\<close> is taken.
\<close>

lemma label_loop_inv:
  "\<exists>j\<le>i. label_loop ls b i = candidate b j \<and>
     (label_loop ls b i \<in> set ls \<longrightarrow> j = i \<and> (\<forall>k\<le>i. candidate b k \<in> set ls))"
proof (induction i)
  case 0
  show ?case by (simp add: label_loop_def candidate_def)
next
  case (Suc i)
  then obtain j where j: "j \<le> i" "label_loop ls b i = candidate b j"
    and imp: "label_loop ls b i \<in> set ls \<longrightarrow> j = i \<and> (\<forall>k\<le>i. candidate b k \<in> set ls)"
    by blast
  have step: "label_loop ls b (Suc i) =
      (if label_loop ls b i \<in> set ls then b @ ''X'' @ str_nat (i + 2) else label_loop ls b i)"
    by (simp add: label_loop_def)
  show ?case
  proof (cases "label_loop ls b i \<in> set ls")
    case True
    with step have new: "label_loop ls b (Suc i) = candidate b (Suc i)"
      by (simp add: candidate_def)
    from True imp have all: "\<forall>k\<le>i. candidate b k \<in> set ls" by blast
    have "\<forall>k\<le>Suc i. candidate b k \<in> set ls" if "candidate b (Suc i) \<in> set ls"
      using all that by (auto simp: le_Suc_eq)
    with new show ?thesis by auto
  next
    case False
    with step have "label_loop ls b (Suc i) = candidate b j" using j by simp
    moreover have "label_loop ls b (Suc i) \<notin> set ls" using False step by simp
    ultimately show ?thesis using j by (intro exI [of _ j]) auto
  qed
qed

lemma label_loop_fresh: "label_loop ls b (length ls) \<notin> set ls"
proof
  assume mem: "label_loop ls b (length ls) \<in> set ls"
  let ?n = "length ls"
  from label_loop_inv [of ?n ls b] mem
  have all: "\<forall>k\<le>?n. candidate b k \<in> set ls" by auto
  then have sub: "candidate b ` {0..?n} \<subseteq> set ls" by auto
  have "inj_on (candidate b) {0..?n}"
    by (auto simp: inj_on_def dest: candidate_inj)
  then have "card (candidate b ` {0..?n}) = Suc ?n"
    by (simp add: card_image)
  moreover from sub have "card (candidate b ` {0..?n}) \<le> card (set ls)"
    by (simp add: card_mono)
  moreover have "card (set ls) \<le> ?n" by (rule card_length)
  ultimately show False by simp
qed

text \<open>
  C8. For every list of labels on the pull request, the label that
  \<open>add_numbered_label\<close> chooses is not in that list, and it is the base name or the base
  followed by \<open>X\<close> and a number between 2 and the number of labels plus one. So the
  label added is never identical to one already there.
\<close>

theorem add_numbered_label_fresh:
  "add_numbered_label pr label_base \<notin> set (labels pr)
   \<and> (add_numbered_label pr label_base = label_base
      \<or> (\<exists>k. 2 \<le> k \<and> k \<le> length (labels pr) + 1
            \<and> add_numbered_label pr label_base = label_base @ ''X'' @ str_nat k))"
proof -
  have eq: "add_numbered_label pr label_base = label_loop (labels pr) label_base (length (labels pr))"
    by (simp add: add_numbered_label_def label_loop_def)
  from label_loop_inv [of "length (labels pr)" "labels pr" label_base]
  obtain j where j: "j \<le> length (labels pr)"
      "label_loop (labels pr) label_base (length (labels pr)) = candidate label_base j"
    by blast
  have shape: "add_numbered_label pr label_base = label_base
      \<or> (\<exists>k. 2 \<le> k \<and> k \<le> length (labels pr) + 1
            \<and> add_numbered_label pr label_base = label_base @ ''X'' @ str_nat k)"
  proof (cases "j = 0")
    case True
    with j eq show ?thesis by (simp add: candidate_def)
  next
    case False
    with j eq have "add_numbered_label pr label_base = label_base @ ''X'' @ str_nat (j + 1)"
      by (simp add: candidate_def)
    moreover from False j have "2 \<le> j + 1 \<and> j + 1 \<le> length (labels pr) + 1" by simp
    ultimately show ?thesis by blast
  qed
  from eq label_loop_fresh [of "labels pr" label_base] shape show ?thesis by simp
qed

theorem add_numbered_label_fresh_witness:
  "add_numbered_label example_pr ''merged'' = ''mergedX3''
   \<and> ''mergedX3'' \<notin> set (labels example_pr)"
proof -
  have "add_numbered_label example_pr ''merged'' = ''mergedX3''"
    by code_simp
  with add_numbered_label_fresh [of example_pr "''merged''"] show ?thesis by simp
qed

subsection \<open>Categorising checks\<close>

lemma fold_missing:
  "fold (missing_step cr) req b =
     b\<lparr>pending_checks := pending_checks b @
         map (\<lambda>p. (p, None)) (filter (\<lambda>p. \<forall>n\<in>fst ` set cr. \<not> sublist p n) req)\<rparr>"
  by (induction req arbitrary: b) (auto simp: missing_step_def list_all_iff)

lemma relevant_step_eq:
  assumes "map_of cr n = Some c"
  shows "relevant_step cr n b =
     b\<lparr>pending_checks := pending_checks b @
          (if jcs_status c = None then [(n, Some (jcs_url c))] else []),
        failed_checks := failed_checks b @
          (if jcs_status c \<noteq> None \<and> \<not> is_passing_status (jcs_status c) \<and> \<not> benign c
           then [(n, Some (jcs_url c))] else []),
        ok_failed_checks := ok_failed_checks b @
          (if jcs_status c \<noteq> None \<and> \<not> is_passing_status (jcs_status c) \<and> benign c
           then [(n, Some (jcs_url c))] else [])\<rparr>"
  using assms by (auto simp: relevant_step_def benign_def)

lemma fold_relevant:
  assumes "\<forall>n\<in>set names. map_of cr n \<noteq> None"
  shows "fold (relevant_step cr) names b =
     b\<lparr>pending_checks := pending_checks b @
          map (\<lambda>n. (n, Some (jcs_url (the (map_of cr n)))))
            (filter (\<lambda>n. jcs_status (the (map_of cr n)) = None) names),
        failed_checks := failed_checks b @
          map (\<lambda>n. (n, Some (jcs_url (the (map_of cr n)))))
            (filter (\<lambda>n. jcs_status (the (map_of cr n)) \<noteq> None
                \<and> \<not> is_passing_status (jcs_status (the (map_of cr n)))
                \<and> \<not> benign (the (map_of cr n))) names),
        ok_failed_checks := ok_failed_checks b @
          map (\<lambda>n. (n, Some (jcs_url (the (map_of cr n)))))
            (filter (\<lambda>n. jcs_status (the (map_of cr n)) \<noteq> None
                \<and> \<not> is_passing_status (jcs_status (the (map_of cr n)))
                \<and> benign (the (map_of cr n))) names)\<rparr>"
  using assms
proof (induction names arbitrary: b)
  case Nil
  show ?case by simp
next
  case (Cons n names)
  then obtain c where c: "map_of cr n = Some c" by auto
  from Cons.prems have rest: "\<forall>n\<in>set names. map_of cr n \<noteq> None" by simp
  have "fold (relevant_step cr) (n # names) b = fold (relevant_step cr) names (relevant_step cr n b)"
    by simp
  also note Cons.IH [OF rest, of "relevant_step cr n b"]
  finally show ?case
    by (simp add: relevant_step_eq [OF c] c)
qed

lemma map_filter_keys:
  assumes "distinct (map fst cr)"
  shows "map (\<lambda>n. f n (the (map_of cr n))) (filter (\<lambda>n. P n (the (map_of cr n))) (map fst cr))
       = map (\<lambda>nc. f (fst nc) (snd nc)) (filter (\<lambda>nc. P (fst nc) (snd nc)) cr)"
proof -
  have look: "map_of cr (fst nc) = Some (snd nc)" if "nc \<in> set cr" for nc
    using assms that by (cases nc) simp
  have "map (\<lambda>n. f n (the (map_of cr n))) (filter (\<lambda>n. P n (the (map_of cr n))) (map fst cr))
      = map (\<lambda>nc. f (fst nc) (the (map_of cr (fst nc))))
          (filter (\<lambda>nc. P (fst nc) (the (map_of cr (fst nc)))) cr)"
    by (simp add: filter_map comp_def)
  also have "filter (\<lambda>nc. P (fst nc) (the (map_of cr (fst nc)))) cr
      = filter (\<lambda>nc. P (fst nc) (snd nc)) cr"
    by (rule filter_cong) (simp_all add: look)
  also have "map (\<lambda>nc. f (fst nc) (the (map_of cr (fst nc)))) (filter (\<lambda>nc. P (fst nc) (snd nc)) cr)
      = map (\<lambda>nc. f (fst nc) (snd nc)) (filter (\<lambda>nc. P (fst nc) (snd nc)) cr)"
    by (rule map_cong) (simp_all add: look)
  finally show ?thesis .
qed

lemma relevant_keys_present: "\<forall>n\<in>set (relevant_checknames cr req). map_of cr n \<noteq> None"
  by (auto simp: relevant_checknames_def map_of_eq_None_iff)

text \<open>
  C2. For a dictionary of checks (distinct names): the relevant names are the check names
  that contain some required pattern as a substring; the pending list is one
  \<open>(pattern, None)\<close> entry for every required pattern contained in no check name,
  followed by the relevant checks whose status is \<open>None\<close>; the ok-failed bucket is
  the relevant, concluded, non-passing checks classified \<open>FLAKY\<close> or
  \<open>BROKEN_TRUNK\<close>; the failed list is every other relevant, concluded, non-passing
  check; and when the ok-failed bucket has strictly more than the threshold entries,
  all of them are appended to the failed list that is returned.
\<close>

theorem categorize_checks_spec:
  assumes "distinct (map fst check_runs)"
  shows "set (relevant_checknames check_runs required) =
           {n \<in> fst ` set check_runs. is_relevant required n}
   \<and> pending_checks (categorize_buckets check_runs required) =
       map (\<lambda>p. (p, None)) (filter (\<lambda>p. \<forall>n\<in>fst ` set check_runs. \<not> sublist p n) required) @
       map entry (filter (\<lambda>nc. is_relevant required (fst nc) \<and> jcs_status (snd nc) = None) check_runs)
   \<and> ok_failed_checks (categorize_buckets check_runs required) =
       map entry (filter (\<lambda>nc. is_relevant required (fst nc) \<and> jcs_status (snd nc) \<noteq> None
           \<and> \<not> is_passing_status (jcs_status (snd nc)) \<and> benign (snd nc)) check_runs)
   \<and> failed_checks (categorize_buckets check_runs required) =
       map entry (filter (\<lambda>nc. is_relevant required (fst nc) \<and> jcs_status (snd nc) \<noteq> None
           \<and> \<not> is_passing_status (jcs_status (snd nc)) \<and> \<not> benign (snd nc)) check_runs)
   \<and> categorize_checks check_runs required threshold =
       (pending_checks (categorize_buckets check_runs required),
        failed_checks (categorize_buckets check_runs required) @
          (if int (length (ok_failed_checks (categorize_buckets check_runs required))) > threshold
           then ok_failed_checks (categorize_buckets check_runs required) else []))"
proof -
  let ?rel = "relevant_checknames check_runs required"
  have rel: "?rel = filter (is_relevant required) (map fst check_runs)"
    by (simp add: relevant_checknames_def is_relevant_def [abs_def] list_ex_iff)
  have mf: "map (\<lambda>n. (n, Some (jcs_url (the (map_of check_runs n)))))
              (filter (\<lambda>n. Q (the (map_of check_runs n))) ?rel)
          = map entry (filter (\<lambda>nc. is_relevant required (fst nc) \<and> Q (snd nc)) check_runs)" for Q
    using map_filter_keys [OF assms,
        of "\<lambda>n c. (n, Some (jcs_url c))" "\<lambda>n c. is_relevant required n \<and> Q c"]
    by (simp add: rel entry_def [abs_def] conj_commute)
  have b: "categorize_buckets check_runs required =
      fold (relevant_step check_runs) ?rel
        (fold (missing_step check_runs) required
           \<lparr>pending_checks = [], failed_checks = [], ok_failed_checks = []\<rparr>)"
    by (simp add: categorize_buckets_def)
  have p1: "set ?rel = {n \<in> fst ` set check_runs. is_relevant required n}"
    by (auto simp: rel)
  have p2: "pending_checks (categorize_buckets check_runs required) =
       map (\<lambda>p. (p, None)) (filter (\<lambda>p. \<forall>n\<in>fst ` set check_runs. \<not> sublist p n) required) @
       map entry (filter (\<lambda>nc. is_relevant required (fst nc) \<and> jcs_status (snd nc) = None) check_runs)"
    unfolding b fold_relevant [OF relevant_keys_present] fold_missing
    using mf [of "\<lambda>c. jcs_status c = None"] by simp
  have p3: "ok_failed_checks (categorize_buckets check_runs required) =
       map entry (filter (\<lambda>nc. is_relevant required (fst nc) \<and> jcs_status (snd nc) \<noteq> None
           \<and> \<not> is_passing_status (jcs_status (snd nc)) \<and> benign (snd nc)) check_runs)"
    unfolding b fold_relevant [OF relevant_keys_present] fold_missing
    using mf [of "\<lambda>c. jcs_status c \<noteq> None \<and> \<not> is_passing_status (jcs_status c) \<and> benign c"] by simp
  have p4: "failed_checks (categorize_buckets check_runs required) =
       map entry (filter (\<lambda>nc. is_relevant required (fst nc) \<and> jcs_status (snd nc) \<noteq> None
           \<and> \<not> is_passing_status (jcs_status (snd nc)) \<and> \<not> benign (snd nc)) check_runs)"
    unfolding b fold_relevant [OF relevant_keys_present] fold_missing
    using mf [of "\<lambda>c. jcs_status c \<noteq> None \<and> \<not> is_passing_status (jcs_status c) \<and> \<not> benign c"] by simp
  have p5: "categorize_checks check_runs required threshold =
       (pending_checks (categorize_buckets check_runs required),
        failed_checks (categorize_buckets check_runs required) @
          (if int (length (ok_failed_checks (categorize_buckets check_runs required))) > threshold
           then ok_failed_checks (categorize_buckets check_runs required) else []))"
    by (simp add: categorize_checks_def Let_def)
  from p1 p2 p3 p4 p5 show ?thesis by blast
qed

theorem categorize_checks_spec_witness:
  "distinct (map fst example_checks)
   \<and> categorize_checks example_checks [''lin'', ''EasyCLA''] 0 =
       ([(''EasyCLA'', None), (''pull / linux-test'', Some ''u1'')],
        [(''pull / linux-build'', Some ''u3''), (''pull / lint'', Some ''u2'')])
   \<and> categorize_checks example_checks [''lin'', ''EasyCLA''] 3 =
       ([(''EasyCLA'', None), (''pull / linux-test'', Some ''u1'')],
        [(''pull / linux-build'', Some ''u3'')])"
proof -
  have d: "distinct (map fst example_checks)"
    by (simp add: example_checks_def)
  have e0: "categorize_checks example_checks [''lin'', ''EasyCLA''] 0 =
       ([(''EasyCLA'', None), (''pull / linux-test'', Some ''u1'')],
        [(''pull / linux-build'', Some ''u3''), (''pull / lint'', Some ''u2'')])"
    by code_simp
  have e3: "categorize_checks example_checks [''lin'', ''EasyCLA''] 3 =
       ([(''EasyCLA'', None), (''pull / linux-test'', Some ''u1'')],
        [(''pull / linux-build'', Some ''u3'')])"
    by code_simp
  from categorize_checks_spec [OF d, of "[''lin'', ''EasyCLA'']" 0] d e0 e3
  show ?thesis by simp
qed

subsection \<open>Classifying failures\<close>

lemma update_fresh: "k \<notin> fst ` set al \<Longrightarrow> AList.update k v al = al @ [(k, v)]"
  by (induction al) auto

lemma fold_classify_step:
  assumes "distinct (map fst checks)" and "fst ` set checks \<inter> fst ` set acc = {}"
  shows "fold (classify_step fl hj mj) checks acc =
     acc @ map (\<lambda>nc. (fst nc, classify fl (map_of hj (fst nc)) (map_of mj (fst nc)) (snd nc))) checks"
  using assms
proof (induction checks arbitrary: acc)
  case Nil
  show ?case by simp
next
  case (Cons nc checks)
  let ?v = "classify fl (map_of hj (fst nc)) (map_of mj (fst nc)) (snd nc)"
  from Cons.prems have fresh: "fst nc \<notin> fst ` set acc" by auto
  then have step: "classify_step fl hj mj nc acc = acc @ [(fst nc, ?v)]"
    by (simp add: classify_step_def update_fresh)
  from Cons.prems have d: "distinct (map fst checks)"
    and dj: "fst ` set checks \<inter> fst ` set (acc @ [(fst nc, ?v)]) = {}"
    by auto
  from Cons.IH [OF d dj] step show ?case by simp
qed

lemma classify_cases:
  "jcs_name (classify fl h m c) = jcs_name c"
  "jcs_url (classify fl h m c) = jcs_url c"
  "jcs_status (classify fl h m c) = jcs_status c"
  "jcs_status c = Some ''SUCCESS'' \<Longrightarrow> classify fl h m c = c"
  "jcs_status c \<noteq> Some ''SUCCESS'' \<Longrightarrow> broken_trunk h m \<Longrightarrow>
     classify fl h m c = c\<lparr>jcs_classification := Some ''BROKEN_TRUNK''\<rparr>"
  "jcs_status c \<noteq> Some ''SUCCESS'' \<Longrightarrow> \<not> broken_trunk h m \<Longrightarrow> crashed_early h \<Longrightarrow>
     classify fl h m c = c\<lparr>jcs_classification := Some ''FLAKY''\<rparr>"
  "jcs_status c \<noteq> Some ''SUCCESS'' \<Longrightarrow> \<not> broken_trunk h m \<Longrightarrow> \<not> crashed_early h \<Longrightarrow>
     known_flaky fl h \<Longrightarrow> classify fl h m c = c\<lparr>jcs_classification := Some ''FLAKY''\<rparr>"
  "jcs_status c \<noteq> Some ''SUCCESS'' \<Longrightarrow> \<not> broken_trunk h m \<Longrightarrow> \<not> crashed_early h \<Longrightarrow>
     \<not> known_flaky fl h \<Longrightarrow> classify fl h m c = c"
  by (auto simp: classify_def broken_trunk_def crashed_early_def known_flaky_def list_ex_iff
      split: option.splits)

text \<open>
  C3. For a dictionary of checks (distinct names) the classifier returns a dictionary
  with the same names in the same order, and each check keeps its name, URL and status.
  A check whose status is \<open>SUCCESS\<close> is returned unchanged, so it is never classified.
  For a check with any other status, with \<open>h\<close> and \<open>m\<close> the head-sha job and the
  merge-base job stored under the check's name: it is classified \<open>BROKEN_TRUNK\<close> when
  both exist with equal conclusion and equal failure captures; otherwise \<open>FLAKY\<close> when
  \<open>h\<close> exists and has at most one step; otherwise \<open>FLAKY\<close> when some flaky rule
  matches \<open>h\<close>; otherwise its classification is left as it was.
\<close>

theorem get_classifications_spec:
  assumes "distinct (map fst checks)"
  shows "\<exists>res. get_classifications head_sha merge_base_sha checks flaky rockset_results = Inr res
     \<and> map fst res = map fst checks
     \<and> (\<forall>(name, check)\<in>set checks. \<exists>c'.
          map_of res name = Some c'
          \<and> jcs_name c' = jcs_name check \<and> jcs_url c' = jcs_url check
          \<and> jcs_status c' = jcs_status check
          \<and> (let h = map_of (head_sha_jobs head_sha rockset_results) name;
                  m = map_of (merge_base_jobs head_sha rockset_results) name
              in (jcs_status check = Some ''SUCCESS'' \<longrightarrow> c' = check)
               \<and> (jcs_status check \<noteq> Some ''SUCCESS'' \<longrightarrow>
                    (broken_trunk h m \<longrightarrow>
                       c' = check\<lparr>jcs_classification := Some ''BROKEN_TRUNK''\<rparr>)
                  \<and> (\<not> broken_trunk h m \<and> crashed_early h \<longrightarrow>
                       c' = check\<lparr>jcs_classification := Some ''FLAKY''\<rparr>)
                  \<and> (\<not> broken_trunk h m \<and> \<not> crashed_early h \<and> known_flaky flaky h \<longrightarrow>
                       c' = check\<lparr>jcs_classification := Some ''FLAKY''\<rparr>)
                  \<and> (\<not> broken_trunk h m \<and> \<not> crashed_early h \<and> \<not> known_flaky flaky h \<longrightarrow>
                       c' = check))))"
proof -
  let ?hj = "head_sha_jobs head_sha rockset_results"
  let ?mj = "merge_base_jobs head_sha rockset_results"
  let ?g = "\<lambda>nc. (fst nc, classify flaky (map_of ?hj (fst nc)) (map_of ?mj (fst nc)) (snd nc))"
  let ?res = "map ?g checks"
  have f: "fold (classify_step flaky ?hj ?mj) checks [] = ?res"
    using fold_classify_step [OF assms, of "[]" flaky ?hj ?mj] by simp
  then have r: "get_classifications head_sha merge_base_sha checks flaky rockset_results = Inr ?res"
    by (simp add: get_classifications_def)
  have k: "map fst ?res = map fst checks" by (simp add: comp_def)
  have look: "map_of ?res name = Some (classify flaky (map_of ?hj name) (map_of ?mj name) check)"
    if "(name, check) \<in> set checks" for name check
  proof -
    from that have "(name, classify flaky (map_of ?hj name) (map_of ?mj name) check) \<in> set ?res"
      by force
    moreover from assms have "distinct (map fst ?res)" by (simp add: comp_def)
    ultimately show ?thesis by (rule map_of_is_SomeI [rotated])
  qed
  have each: "\<exists>c'. map_of ?res name = Some c'
          \<and> jcs_name c' = jcs_name check \<and> jcs_url c' = jcs_url check
          \<and> jcs_status c' = jcs_status check
          \<and> (let h = map_of ?hj name; m = map_of ?mj name
              in (jcs_status check = Some ''SUCCESS'' \<longrightarrow> c' = check)
               \<and> (jcs_status check \<noteq> Some ''SUCCESS'' \<longrightarrow>
                    (broken_trunk h m \<longrightarrow>
                       c' = check\<lparr>jcs_classification := Some ''BROKEN_TRUNK''\<rparr>)
                  \<and> (\<not> broken_trunk h m \<and> crashed_early h \<longrightarrow>
                       c' = check\<lparr>jcs_classification := Some ''FLAKY''\<rparr>)
                  \<and> (\<not> broken_trunk h m \<and> \<not> crashed_early h \<and> known_flaky flaky h \<longrightarrow>
                       c' = check\<lparr>jcs_classification := Some ''FLAKY''\<rparr>)
                  \<and> (\<not> broken_trunk h m \<and> \<not> crashed_early h \<and> \<not> known_flaky flaky h \<longrightarrow>
                       c' = check)))"
    if "(name, check) \<in> set checks" for name check
    unfolding look [OF that] Let_def
    by (intro exI [of _ "classify flaky (map_of ?hj name) (map_of ?mj name) check"])
       (simp add: classify_cases)
  from r k each show ?thesis by blast
qed

theorem get_classifications_spec_witness:
  "distinct (map fst failing_checks)
   \<and> get_classifications ''aaa'' ''bbb'' failing_checks example_flaky_rules example_rockset_results
       = Inr classified_checks"
proof -
  have d: "distinct (map fst failing_checks)"
    by (simp add: failing_checks_def)
  have e: "get_classifications ''aaa'' ''bbb'' failing_checks example_flaky_rules
      example_rockset_results = Inr classified_checks"
    by code_simp
  from get_classifications_spec [OF d, of "''aaa''" "''bbb''" example_flaky_rules
      example_rockset_results] d e
  show ?thesis by simp
qed

subsection \<open>Aggregating checks\<close>

lemma add_edge_keeps:
  assumes "map_of (workflows st) n = Some w"
  shows "\<exists>w'. map_of (workflows (add_edge node st)) n = Some w'
     \<and> wcs_name w' = wcs_name w \<and> wcs_status w' = wcs_status w \<and> wcs_url w' = wcs_url w"
proof (cases "cs_workflow_run node")
  case None
  with assms show ?thesis by (simp add: add_edge_def)
next
  case (Some wr)
  from assms have mem: "n \<in> fst ` set (workflows st)"
    by (metis domI dom_map_of_conv_image_fst)
  show ?thesis
  proof (cases "wr_workflow_name wr = n")
    case True
    with Some mem assms show ?thesis
      by (simp add: add_edge_def Let_def map_of_map_entry)
  next
    case False
    with Some assms show ?thesis
      by (simp add: add_edge_def Let_def map_of_map_entry update_conv')
  qed
qed

lemma add_edge_new:
  assumes "map_of (workflows st) n = None" and "suite_named n node"
  shows "\<exists>w'. map_of (workflows (add_edge node st)) n = Some w' \<and> records_suite w' n node"
proof -
  from assms(1) have nmem: "n \<notin> fst ` set (workflows st)"
    by (simp add: map_of_eq_None_iff)
  from assms(2) obtain wr where wr: "cs_workflow_run node = Some wr" "wr_workflow_name wr = n"
    by (auto simp: suite_named_def)
  show ?thesis
    using nmem wr
    by (simp add: add_edge_def Let_def map_of_map_entry update_conv' records_suite_def)
qed

lemma add_edge_other:
  assumes "map_of (workflows st) n = None" and "\<not> suite_named n node"
  shows "map_of (workflows (add_edge node st)) n = None"
  using assms
  by (auto simp: add_edge_def Let_def map_of_map_entry update_conv' suite_named_def
      split: option.splits)

lemma fold_add_edge_keeps:
  assumes "map_of (workflows st) n = Some w"
  shows "\<exists>w'. map_of (workflows (fold add_edge edges st)) n = Some w'
     \<and> wcs_name w' = wcs_name w \<and> wcs_status w' = wcs_status w \<and> wcs_url w' = wcs_url w"
  using assms
proof (induction edges arbitrary: st w)
  case Nil
  then show ?case by simp
next
  case (Cons node edges)
  from add_edge_keeps [OF Cons.prems, of node] obtain w1 where
    w1: "map_of (workflows (add_edge node st)) n = Some w1"
      "wcs_name w1 = wcs_name w" "wcs_status w1 = wcs_status w" "wcs_url w1 = wcs_url w"
    by blast
  from Cons.IH [OF w1(1)] w1 show ?case by simp
qed

lemma fold_add_edge_first:
  assumes "map_of (workflows st) n = None"
  shows "(find (suite_named n) edges = None \<longrightarrow>
            map_of (workflows (fold add_edge edges st)) n = None)
       \<and> (\<forall>node. find (suite_named n) edges = Some node \<longrightarrow>
            (\<exists>w. map_of (workflows (fold add_edge edges st)) n = Some w \<and> records_suite w n node))"
  using assms
proof (induction edges arbitrary: st)
  case Nil
  then show ?case by simp
next
  case (Cons node edges)
  show ?case
  proof (cases "suite_named n node")
    case True
    from add_edge_new [OF Cons.prems True] obtain w1 where
      w1: "map_of (workflows (add_edge node st)) n = Some w1" "records_suite w1 n node"
      by blast
    from fold_add_edge_keeps [OF w1(1), of edges] w1(2) True show ?thesis
      by (auto simp: records_suite_def)
  next
    case False
    from Cons.IH [OF add_edge_other [OF Cons.prems False]] False show ?thesis by simp
  qed
qed

lemma fold_fold_concat: "fold (\<lambda>xs. fold f xs) xss s = fold f (concat xss) s"
  by (induction xss arbitrary: s) simp_all

lemma aggregate_concat:
  "aggregate pages = fold add_edge (concat pages) \<lparr>workflows = [], no_workflow_jobs = []\<rparr>"
  by (simp add: aggregate_def add_conclusions_def [abs_def] fold_fold_concat)


lemma aggregate_first:
  "(find (suite_named n) (concat pages) = None \<longrightarrow> map_of (workflows (aggregate pages)) n = None)
   \<and> (\<forall>node. find (suite_named n) (concat pages) = Some node \<longrightarrow>
        (\<exists>w. map_of (workflows (aggregate pages)) n = Some w \<and> records_suite w n node))"
  unfolding aggregate_concat
  by (rule fold_add_edge_first) simp

lemma add_edge_skip:
  assumes "suite_named n node" and "cancelled node" and "n \<in> fst ` set (workflows st)"
  shows "add_edge node st = st"
proof -
  from assms(1) obtain wr where wr: "cs_workflow_run node = Some wr" "wr_workflow_name wr = n"
    by (auto simp: suite_named_def)
  with assms(2,3) show ?thesis
    by (simp add: add_edge_def cancelled_def Let_def)
qed

lemma add_checkrun_rule:
  "map_of (add_checkrun workflow_run (Some node) jobs)
      (get_check_run_name_prefix workflow_run @ cr_name node) =
     (case map_of jobs (get_check_run_name_prefix workflow_run @ cr_name node) of
        None \<Rightarrow> Some \<lparr>jcs_name = get_check_run_name_prefix workflow_run @ cr_name node,
                  jcs_url = cr_details_url node, jcs_status = cr_conclusion node,
                  jcs_classification = None\<rparr>
      | Some existing \<Rightarrow>
          if is_passing_status (jcs_status existing) then Some existing
          else Some \<lparr>jcs_name = get_check_run_name_prefix workflow_run @ cr_name node,
                  jcs_url = cr_details_url node, jcs_status = cr_conclusion node,
                  jcs_classification = None\<rparr>)"
  by (simp add: add_checkrun_def Let_def update_conv' split: option.splits)

lemma add_checkrun_other:
  "k \<noteq> get_check_run_name_prefix workflow_run @ cr_name node \<Longrightarrow>
     map_of (add_checkrun workflow_run (Some node) jobs) k = map_of jobs k"
  by (simp add: add_checkrun_def Let_def update_conv' split: option.splits)

text \<open>
  C4 (as the code has it). A suite whose conclusion is \<open>CANCELLED\<close> is skipped whenever
  a workflow of the same name has already been recorded: it leaves the whole state as it
  was. The status and URL recorded for a workflow name are those of the first suite of
  that name in the order received, cancelled or not, and a name no suite carries is not
  recorded. A check run is stored under its prefixed name unless the entry already
  stored under that name has a passing status, in which case that entry is kept; no
  other entry of the jobs map changes.
\<close>

theorem add_workflow_conclusions_rules:
  "(suite_named n node \<and> cancelled node \<and> n \<in> fst ` set (workflows st) \<longrightarrow> add_edge node st = st)
   \<and> (\<forall>first. find (suite_named n) (concat pages) = Some first \<longrightarrow>
        (\<exists>w. map_of (workflows (aggregate pages)) n = Some w \<and> records_suite w n first))
   \<and> (find (suite_named n) (concat pages) = None \<longrightarrow> map_of (workflows (aggregate pages)) n = None)
   \<and> map_of (add_checkrun workflow_run (Some cr) jobs)
        (get_check_run_name_prefix workflow_run @ cr_name cr) =
       (case map_of jobs (get_check_run_name_prefix workflow_run @ cr_name cr) of
          None \<Rightarrow> Some \<lparr>jcs_name = get_check_run_name_prefix workflow_run @ cr_name cr,
                    jcs_url = cr_details_url cr, jcs_status = cr_conclusion cr,
                    jcs_classification = None\<rparr>
        | Some existing \<Rightarrow>
            if is_passing_status (jcs_status existing) then Some existing
            else Some \<lparr>jcs_name = get_check_run_name_prefix workflow_run @ cr_name cr,
                    jcs_url = cr_details_url cr, jcs_status = cr_conclusion cr,
                    jcs_classification = None\<rparr>)
   \<and> (\<forall>k. k \<noteq> get_check_run_name_prefix workflow_run @ cr_name cr \<longrightarrow>
        map_of (add_checkrun workflow_run (Some cr) jobs) k = map_of jobs k)"
  using add_edge_skip [of n node st] aggregate_first [of n pages]
    add_checkrun_rule [of workflow_run cr jobs] add_checkrun_other [of _ workflow_run cr jobs]
  by blast

theorem add_workflow_conclusions_rules_witness:
  "add_edge cancelled_run (aggregate [[successful_rerun]]) = aggregate [[successful_rerun]]
   \<and> (\<exists>w. map_of (workflows (aggregate [[successful_rerun, cancelled_run]])) ''pull'' = Some w
         \<and> records_suite w ''pull'' successful_rerun)"
proof -
  have h1: "suite_named ''pull'' cancelled_run" by code_simp
  have h2: "cancelled cancelled_run" by code_simp
  have h3: "''pull'' \<in> fst ` set (workflows (aggregate [[successful_rerun]]))" by code_simp
  have h4: "find (suite_named ''pull'') (concat [[successful_rerun, cancelled_run]])
      = Some successful_rerun" by code_simp
  from add_workflow_conclusions_rules [of "''pull''" cancelled_run "aggregate [[successful_rerun]]"]
    h1 h2 h3
  have a: "add_edge cancelled_run (aggregate [[successful_rerun]]) = aggregate [[successful_rerun]]"
    by blast
  from add_workflow_conclusions_rules [of "''pull''" _ _ "[[successful_rerun, cancelled_run]]"] h4
  have b: "\<exists>w. map_of (workflows (aggregate [[successful_rerun, cancelled_run]])) ''pull'' = Some w
         \<and> records_suite w ''pull'' successful_rerun"
    by blast
  from a b show ?thesis by blast
qed

text \<open>
  The claim as the specification words it adds that for every workflow name the result
  kept is that of the first suite that is not cancelled. It is not: when the first run of
  a workflow was cancelled and its rerun succeeded, the cancelled run is recorded (no
  workflow of that name was recorded before it), and the status reported for the
  workflow is \<open>CANCELLED\<close>. Nor are the jobs of the first suite that is not cancelled
  kept: a later suite of the same workflow replaces every job that is not passing.
\<close>

theorem first_non_cancelled_counterexample:
  "find (\<lambda>s. suite_named ''pull'' s \<and> \<not> cancelled s) (concat [[cancelled_run, successful_rerun]])
     = Some successful_rerun
   \<and> cs_conclusion successful_rerun = Some ''SUCCESS''
   \<and> add_workflow_conclusions [[cancelled_run, successful_rerun]] =
       [(''pull'', \<lparr>jcs_name = ''pull'', jcs_url = ''run/1'', jcs_status = Some ''CANCELLED'',
           jcs_classification = None\<rparr>)]
   \<and> find (\<lambda>s. suite_named ''pull'' s \<and> \<not> cancelled s) (concat [[failed_run, green_rerun]])
       = Some failed_run
   \<and> add_workflow_conclusions [[failed_run, green_rerun]] =
       [(''pull / build'', \<lparr>jcs_name = ''pull / build'', jcs_url = ''job/4'',
           jcs_status = Some ''SUCCESS'', jcs_classification = None\<rparr>)]"
  by code_simp

subsection \<open>The rule evaluator\<close>

lemma split_on_nonempty: "split_on c s \<noteq> []"
  by (induction s) (auto split: list.splits)

lemma add_approver_ok:
  assumes "well_formed_approver a"
  shows "\<exists>s. add_approver w a acc = Inr s \<and> set s = set acc \<union> expand_approver w a"
proof (cases "CHR ''/'' \<in> set a")
  case False
  then show ?thesis by (simp add: add_approver_def expand_approver_def)
next
  case True
  with assms have "length (split_on CHR ''/'' a) = 2" by (simp add: well_formed_approver_def)
  then obtain org name where "split_on CHR ''/'' a = [org, name]"
    by (auto simp: length_Suc_conv numeral_2_eq_2)
  with True show ?thesis by (simp add: add_approver_def expand_approver_def)
qed

lemma rule_approvers_ok:
  assumes "\<forall>a\<in>set as. well_formed_approver a"
  shows "\<exists>s. rule_approvers w as acc = Inr s \<and> set s = set acc \<union> (\<Union>a\<in>set as. expand_approver w a)"
  using assms
proof (induction as arbitrary: acc)
  case Nil
  show ?case by simp
next
  case (Cons a as)
  from Cons.prems have "well_formed_approver a" by simp
  from add_approver_ok [OF this, of w acc] obtain s1 where
    s1: "add_approver w a acc = Inr s1" "set s1 = set acc \<union> expand_approver w a" by blast
  from Cons.prems have "\<forall>a\<in>set as. well_formed_approver a" by simp
  from Cons.IH [OF this, of s1] obtain s where
    s: "rule_approvers w as s1 = Inr s" "set s = set s1 \<union> (\<Union>a\<in>set as. expand_approver w a)" by blast
  from s1 s show ?case by auto
qed

lemma add_approver_error: "add_approver w a acc = Inl e \<Longrightarrow> e = ValueError"
  by (auto simp: add_approver_def split: if_splits list.splits)

lemma rule_approvers_error: "rule_approvers w as acc = Inl e \<Longrightarrow> e = ValueError"
  by (induction as arbitrary: acc) (auto split: sum.splits dest: add_approver_error)

lemma num_matching:
  "int (length fs) - int (length (filter (\<lambda>f. \<not> P f) fs)) = int (length (filter P fs))"
  using sum_length_filter_compl [of P fs] by simp

lemma rule_body_passes:
  assumes wf: "\<forall>a\<in>set (mr_approved_by rule). well_formed_approver a"
    and pass: "rule_passes w pr skip_m checks rule"
  shows "rule_body w pr skip_m skip_i (files_fetched pr) (get_approved_by pr) checks rule acc =
     (if \<not> skip_i \<and> has_internal_changes w pr then Raise (RuntimeError InternalChanges)
      else Return rule)"
proof -
  from rule_approvers_ok [OF wf, of w "[]"] obtain s where
    s: "rule_approvers w (mr_approved_by rule) [] = Inr s" "set s = expanded_approvers w rule"
    by (auto simp: expanded_approvers_def)
  from pass have f: "filter (\<lambda>fname. \<not> patterns_match w (mr_patterns rule) fname) (files_fetched pr) = []"
    by (simp add: rule_passes_def all_files_match_def filter_empty_conv)
  from pass have a: "approvers_pass w pr rule" by (simp add: rule_passes_def)
  from pass have c: "categorize_checks checks
      (filter (\<lambda>x. sublist ''EasyCLA'' x \<or> \<not> skip_m)
         (case mr_mandatory_checks_name rule of None \<Rightarrow> [] | Some m \<Rightarrow> m)) 3 = ([], [])"
    by (simp add: rule_passes_def checks_pass_def required_checks_of_def)
  have inter: "list_ex (\<lambda>a. a \<in> set s) (get_approved_by pr)
      \<longleftrightarrow> set (get_approved_by pr) \<inter> expanded_approvers w rule \<noteq> {}"
    by (auto simp: list_ex_iff s(2))
  have ne: "s = [] \<longleftrightarrow> expanded_approvers w rule = {}"
    using s(2) by (cases s) auto
  have emp: "mr_approved_by rule = [] \<Longrightarrow> expanded_approvers w rule = {}"
    by (simp add: expanded_approvers_def)
  from a emp show ?thesis
    unfolding rule_body_def Let_def f
    by (auto simp: s(1) c inter ne approvers_pass_def)
qed


lemma rule_body_rejects:
  assumes wf: "\<forall>a\<in>set (mr_approved_by rule). well_formed_approver a"
    and rej: "\<not> rule_passes w pr skip_m checks rule"
  shows "rule_body w pr skip_m skip_i (files_fetched pr) (get_approved_by pr) checks rule acc =
     Continue (fst (pick (rejection w pr skip_m checks rule) acc))
              (snd (pick (rejection w pr skip_m checks rule) acc))"
proof -
  from rule_approvers_ok [OF wf, of w "[]"] obtain s where
    s: "rule_approvers w (mr_approved_by rule) [] = Inr s" and ss: "set s = expanded_approvers w rule"
    by (auto simp: expanded_approvers_def)
  have inter: "list_ex (\<lambda>a. a \<in> set s) (get_approved_by pr)
      \<longleftrightarrow> set (get_approved_by pr) \<inter> expanded_approvers w rule \<noteq> {}"
    by (auto simp: list_ex_iff ss)
  have ne: "s = [] \<longleftrightarrow> expanded_approvers w rule = {}"
    using ss by (cases s) auto
  have emp: "mr_approved_by rule = [] \<Longrightarrow> expanded_approvers w rule = {}"
    by (simp add: expanded_approvers_def)
  let ?non = "filter (\<lambda>fname. \<not> patterns_match w (mr_patterns rule) fname) (files_fetched pr)"
  let ?pf = "categorize_checks checks
          (filter (\<lambda>x. sublist ''EasyCLA'' x \<or> \<not> skip_m)
             (case mr_mandatory_checks_name rule of None \<Rightarrow> [] | Some m \<Rightarrow> m)) 3"
  show ?thesis
  proof (cases "all_files_match w pr rule")
    case False
    then have n: "?non \<noteq> []"
      by (auto simp: all_files_match_def filter_empty_conv)
    have r: "rejection w pr skip_m checks rule =
        (int (length (filter (patterns_match w (mr_patterns rule)) (files_fetched pr))),
         NotAllFilesMatch (mr_name rule)
           (int (length (filter (patterns_match w (mr_patterns rule)) (files_fetched pr)))) ?non)"
      using False by (simp add: rejection_def Let_def)
    from n show ?thesis
      unfolding rule_body_def Let_def r
      by (simp add: num_matching pick_def)
  next
    case True
    then have n: "?non = []"
      by (simp add: all_files_match_def filter_empty_conv)
    show ?thesis
    proof (cases "approvers_pass w pr rule")
      case False
      then have ab: "mr_approved_by rule \<noteq> []" by (simp add: approvers_pass_def)
      show ?thesis
      proof (cases "get_approved_by pr = []")
        case nil: True
        have r: "rejection w pr skip_m checks rule = (10000, NotReviewed (pr_num pr) (mr_name rule))"
          using True False nil by (simp add: rejection_def Let_def)
        from ab nil show ?thesis
          unfolding rule_body_def Let_def n r
          by (simp add: pick_def)
      next
        case some: False
        with False have i: "\<not> list_ex (\<lambda>a. a \<in> set s) (get_approved_by pr)" and sn: "s \<noteq> []"
          by (simp_all add: approvers_pass_def inter ne)
        have r: "rejection w pr skip_m checks rule =
            (10000, ApprovalNeeded (mr_name rule) (set s))"
          using True False some by (simp add: rejection_def Let_def ss)
        from ab some i sn show ?thesis
          unfolding rule_body_def Let_def n r
          by (simp add: pick_def s)
      qed
    next
      case ap: True
      with True rej have c: "?pf \<noteq> ([], [])"
        by (simp add: rule_passes_def checks_pass_def required_checks_of_def)
      from ap emp have a2: "\<not> (mr_approved_by rule \<noteq> [] \<and> get_approved_by pr = [])"
        and a3: "\<not> (\<not> list_ex (\<lambda>a. a \<in> set s) (get_approved_by pr) \<and> s \<noteq> [])"
        by (auto simp: approvers_pass_def inter ne)
      show ?thesis
      proof (cases "snd ?pf = []")
        case failed: False
        have r: "rejection w pr skip_m checks rule = (30000, ChecksFailed (mr_name rule) (snd ?pf))"
          using True ap failed by (simp add: rejection_def Let_def required_checks_of_def)
        from a2 a3 failed show ?thesis
          unfolding rule_body_def Let_def n r
          by (simp add: pick_def s)
      next
        case nofail: True
        with c have pend: "fst ?pf \<noteq> []" by (simp add: prod_eq_iff)
        have r: "rejection w pr skip_m checks rule = (20000, ChecksPending (mr_name rule) (fst ?pf))"
          using True ap nofail by (simp add: rejection_def Let_def required_checks_of_def)
        from a2 a3 nofail pend show ?thesis
          unfolding rule_body_def Let_def n r
          by (simp add: pick_def s)
      qed
    qed
  qed
qed

lemma rules_loop_spec:
  assumes "\<forall>rule\<in>set rules. \<forall>a\<in>set (mr_approved_by rule). well_formed_approver a"
  shows "rules_loop (rule_body w pr skip_m skip_i (files_fetched pr) (get_approved_by pr) checks) rules acc =
     (case find (rule_passes w pr skip_m checks) rules of
        Some rule \<Rightarrow>
          Inl (if \<not> skip_i \<and> has_internal_changes w pr then Inl (RuntimeError InternalChanges)
               else Inr rule)
      | None \<Rightarrow> Inr (fold pick (map (rejection w pr skip_m checks) rules) acc))"
  using assms
proof (induction rules arbitrary: acc)
  case Nil
  show ?case by simp
next
  case (Cons rule rules)
  from Cons.prems have wf: "\<forall>a\<in>set (mr_approved_by rule). well_formed_approver a"
    and rest: "\<forall>rule\<in>set rules. \<forall>a\<in>set (mr_approved_by rule). well_formed_approver a"
    by simp_all
  show ?case
  proof (cases "rule_passes w pr skip_m checks rule")
    case True
    from rule_body_passes [OF wf True, of skip_i acc] True show ?thesis by simp
  next
    case False
    from rule_body_rejects [OF wf False, of skip_i acc] False Cons.IH [OF rest] show ?thesis
      by (simp split: option.splits)
  qed
qed

lemma max_element: "rs \<noteq> [] \<Longrightarrow> \<exists>m\<in>set rs. \<forall>x\<in>set rs. fst x \<le> (fst m :: int)"
proof -
  assume "rs \<noteq> []"
  then have ne: "fst ` set rs \<noteq> {}" and fin: "finite (fst ` set rs)" by simp_all
  from Max_in [OF fin ne] obtain m where m: "m \<in> set rs" "fst m = Max (fst ` set rs)" by auto
  have "\<forall>x\<in>set rs. fst x \<le> fst m"
    using Max_ge [OF fin] m(2) by simp
  with m(1) show ?thesis by blast
qed

lemma fold_pick:
  "fold pick rs (b, r0) =
     (case find (\<lambda>sr. b < fst sr \<and> (\<forall>sr'\<in>set rs. fst sr' \<le> fst sr)) rs of
        None \<Rightarrow> (b, r0)
      | Some sr \<Rightarrow> sr)"
proof (induction rs arbitrary: b r0)
  case Nil
  show ?case by simp
next
  case (Cons sr rs)
  obtain s r where sr: "sr = (s, r)" by (cases sr)
  show ?case
  proof (cases "b < s")
    case False
    have agree: "find (\<lambda>x. b < fst x \<and> (\<forall>sr'\<in>set (sr # rs). fst sr' \<le> fst x)) rs
        = find (\<lambda>x. b < fst x \<and> (\<forall>sr'\<in>set rs. fst sr' \<le> fst x)) rs"
      using False by (intro find_cong) (auto simp: sr)
    from False have "fold pick (sr # rs) (b, r0) = fold pick rs (b, r0)"
      by (simp add: pick_def sr)
    with Cons.IH [of b r0] agree False show ?thesis by (simp add: sr)
  next
    case True
    then have step: "fold pick (sr # rs) (b, r0) = fold pick rs (s, r)"
      by (simp add: pick_def sr)
    show ?thesis
    proof (cases "\<forall>sr'\<in>set rs. fst sr' \<le> s")
      case all: True
      then have "find (\<lambda>x. s < fst x \<and> (\<forall>sr'\<in>set rs. fst sr' \<le> fst x)) rs = None"
        by (auto simp: find_None_iff)
      with Cons.IH [of s r] step all True show ?thesis by (simp add: sr)
    next
      case False
      then obtain t where t: "t \<in> set rs" "s < fst t" by auto
      then have "rs \<noteq> []" by auto
      from max_element [OF this] obtain m where m: "m \<in> set rs" "\<forall>x\<in>set rs. fst x \<le> fst m"
        by blast
      with t have "s < fst m" by force
      with m have "\<exists>x\<in>set rs. s < fst x \<and> (\<forall>sr'\<in>set rs. fst sr' \<le> fst x)" by blast
      then obtain y where y: "find (\<lambda>x. s < fst x \<and> (\<forall>sr'\<in>set rs. fst sr' \<le> fst x)) rs = Some y"
        by (cases "find (\<lambda>x. s < fst x \<and> (\<forall>sr'\<in>set rs. fst sr' \<le> fst x)) rs")
           (auto simp: find_None_iff)
      have agree: "find (\<lambda>x. b < fst x \<and> (\<forall>sr'\<in>set (sr # rs). fst sr' \<le> fst x)) rs
          = find (\<lambda>x. s < fst x \<and> (\<forall>sr'\<in>set rs. fst sr' \<le> fst x)) rs"
        using True t by (intro find_cong) (auto simp: sr)
      from Cons.IH [of s r] step y agree False show ?thesis by (auto simp: sr)
    qed
  qed
qed

lemma fold_pick_highest:
  "fold pick rs (0, NoRuleFound) = highest_rejection rs"
  by (simp add: fold_pick highest_rejection_def)

text \<open>
  C1 (as the code has it). When the changed files are complete, the checks are
  available and every approver entry of the rule file has at most one \<open>/\<close>:
  with no rules the function raises \<open>RuntimeError\<close>; otherwise it tries the rules in
  file order and stops at the first rule for which every gate passes (all changed files
  match; the rule lists no approvers, or the pull request is approved and the expanded
  approver set is empty or meets the approvals; no required check is pending or failed).
  There it returns the rule, unless internal checks are not skipped and the pull request
  has internal changes, in which case it raises \<open>RuntimeError\<close>. If no rule passes it
  raises \<open>MandatoryChecksMissingError\<close>, carrying the last rule of the file, exactly
  when the final score is 20000, and \<open>RuntimeError\<close> otherwise; the message is the text
  of the first rejection with the highest score, or the default text when no rejection
  scores above 0.
\<close>

theorem find_matching_merge_rule_spec:
  assumes files: "int (length (files_fetched pr)) = changed_files_count pr"
    and checks: "get_combined_checks_from_pr_and_land_validation w pr land = Inr checks"
    and wf: "\<forall>rule\<in>set (merge_rules w). \<forall>a\<in>set (mr_approved_by rule). well_formed_approver a"
  shows "find_matching_merge_rule w pr skip_m skip_i land =
     (if merge_rules w = [] then Inl (RuntimeError NoRulesDefined)
      else case find (rule_passes w pr skip_m checks) (merge_rules w) of
        Some rule \<Rightarrow>
          if \<not> skip_i \<and> has_internal_changes w pr then Inl (RuntimeError InternalChanges)
          else Inr rule
      | None \<Rightarrow>
          (let best = highest_rejection (map (rejection w pr skip_m checks) (merge_rules w)) in
           if fst best = 20000
           then Inl (MandatoryChecksMissingError (snd best) (last (merge_rules w)))
           else Inl (RuntimeError (snd best))))"
  using files checks
  by (simp add: find_matching_merge_rule_def get_changed_files_def Let_def
      rules_loop_spec [OF wf] fold_pick_highest split: option.splits)

theorem find_matching_merge_rule_spec_witness:
  "find_matching_merge_rule example_world green_pr False False None = Inr core_rule
   \<and> find_matching_merge_rule example_world example_pr False False None =
       Inl (MandatoryChecksMissingError (ChecksPending ''core'' [(''EasyCLA'', None)]) core_rule)"
proof -
  have f: "int (length (files_fetched green_pr)) = changed_files_count green_pr" by code_simp
  have c: "get_combined_checks_from_pr_and_land_validation example_world green_pr None
      = Inr (conclusions green_pr)" by code_simp
  have f': "int (length (files_fetched example_pr)) = changed_files_count example_pr" by code_simp
  have c': "get_combined_checks_from_pr_and_land_validation example_world example_pr None
      = Inr (conclusions example_pr)" by code_simp
  have wf: "\<forall>rule\<in>set (merge_rules example_world). \<forall>a\<in>set (mr_approved_by rule).
      well_formed_approver a" by code_simp
  have ne: "merge_rules example_world \<noteq> []" by code_simp
  have p: "find (rule_passes example_world green_pr False (conclusions green_pr))
      (merge_rules example_world) = Some core_rule" by code_simp
  have i: "\<not> has_internal_changes example_world green_pr" by code_simp
  have p': "find (rule_passes example_world example_pr False (conclusions example_pr))
      (merge_rules example_world) = None" by code_simp
  have b: "highest_rejection (map (rejection example_world example_pr False (conclusions example_pr))
      (merge_rules example_world)) = (20000, ChecksPending ''core'' [(''EasyCLA'', None)])"
    by code_simp
  have l: "last (merge_rules example_world) = core_rule" by code_simp
  from find_matching_merge_rule_spec [OF f c wf, of False False] ne p i
  have "find_matching_merge_rule example_world green_pr False False None = Inr core_rule"
    by simp
  moreover from find_matching_merge_rule_spec [OF f' c' wf, of False False] ne p' b l
  have "find_matching_merge_rule example_world example_pr False False None =
       Inl (MandatoryChecksMissingError (ChecksPending ''core'' [(''EasyCLA'', None)]) core_rule)"
    by simp
  ultimately show ?thesis by simp
qed

text \<open>
  The claim as the specification words it fails in three ways. First, \<open>core\<close> is the first
  rule for which the three gates pass (\<open>docs\<close> fails on the files), yet it is not
  returned: the pull request has internal changes and the function raises. Second, the
  rule \<open>ghosts\<close> lists an approver, a team without members, and no approval of the pull
  request is among the rule's approvers, yet the rule is returned. Third, when the only
  failure matches none of the files its score is 0, which does not replace the initial
  score, and the message raised is the default text, not the text of that failure.
\<close>

theorem find_matching_merge_rule_counterexample:
  "merge_rules example_world = [docs_rule, core_rule]
   \<and> \<not> all_files_match example_world internal_pr docs_rule
   \<and> all_files_match example_world internal_pr core_rule
   \<and> set (get_approved_by internal_pr) \<inter> expanded_approvers example_world core_rule \<noteq> {}
   \<and> get_combined_checks_from_pr_and_land_validation example_world internal_pr None
       = Inr (conclusions internal_pr)
   \<and> checks_pass False (conclusions internal_pr) core_rule
   \<and> find_matching_merge_rule example_world internal_pr False False None
       = Inl (RuntimeError InternalChanges)
   \<and> merge_rules ghost_world = [ghost_rule]
   \<and> mr_approved_by ghost_rule \<noteq> []
   \<and> set (get_approved_by green_pr) \<inter> expanded_approvers ghost_world ghost_rule = {}
   \<and> find_matching_merge_rule ghost_world green_pr False False None = Inr ghost_rule
   \<and> merge_rules docs_world = [docs_rule]
   \<and> rejection docs_world green_pr False (conclusions green_pr) docs_rule
       = (0, NotAllFilesMatch ''docs'' 0 [''core/a.py'', ''core/b.py''])
   \<and> find_matching_merge_rule docs_world green_pr False False None
       = Inl (RuntimeError NoRuleFound)"
  by code_simp

subsection \<open>Validating a revert\<close>

lemma rule_body_no_post: "rule_body w pr sm si fs ap cs rule acc \<noteq> Raise (PostCommentError x)"
proof (cases "rule_approvers w (mr_approved_by rule) []")
  case (Inl e)
  have "e = ValueError" using Inl rule_approvers_error by blast
  with Inl show ?thesis by (simp add: rule_body_def Let_def)
next
  case (Inr s)
  then show ?thesis by (simp add: rule_body_def Let_def)
qed

lemma rules_loop_no_post:
  "rules_loop (rule_body w pr sm si fs ap cs) rules acc \<noteq> Inl (Inl (PostCommentError x))"
proof (induction rules arbitrary: acc)
  case Nil
  show ?case by simp
next
  case (Cons rule rules)
  show ?case
    using Cons.IH rule_body_no_post [of w pr sm si fs ap cs rule acc x]
    by (cases "rule_body w pr sm si fs ap cs rule acc") auto
qed


text \<open>
  C5. Once the triggering comment is resolved: if it has been edited, \<open>validate_revert\<close>
  raises \<open>PostCommentError\<close> and has run no git query; if it has not been edited and the
  author's association is not one of \<open>COLLABORATOR\<close>, \<open>MEMBER\<close>, \<open>OWNER\<close>, or
  \<open>CONTRIBUTOR\<close> on a private base repository, it raises \<open>PostCommentError\<close> and has
  run no git query; and an association in that set is never refused for the
  association.
\<close>

theorem validate_revert_rejects:
  "(triggering_comment pr comment_id = Inr c \<and> editor_login c \<noteq> None \<longrightarrow>
      validate_revert w pr comment_id = (Inl (PostCommentError EditedCommand), []))
   \<and> (triggering_comment pr comment_id = Inr c \<and> editor_login c = None
        \<and> author_association c \<notin>
            {''COLLABORATOR'', ''MEMBER'', ''OWNER''}
              \<union> (if base_repo_private pr then {''CONTRIBUTOR''} else {}) \<longrightarrow>
      validate_revert w pr comment_id =
        (Inl (PostCommentError (NotAllowedReverter (author_login c) (allowed_reverters pr)
                (author_association c))), []))
   \<and> (triggering_comment pr comment_id = Inr c \<and> editor_login c = None
        \<and> author_association c \<in>
            {''COLLABORATOR'', ''MEMBER'', ''OWNER''}
              \<union> (if base_repo_private pr then {''CONTRIBUTOR''} else {}) \<longrightarrow>
      (\<forall>login allowed association ops.
         validate_revert w pr comment_id \<noteq>
           (Inl (PostCommentError (NotAllowedReverter login allowed association)), ops)))"
proof -
  have allowed: "set (allowed_reverters pr) =
      {''COLLABORATOR'', ''MEMBER'', ''OWNER''}
        \<union> (if base_repo_private pr then {''CONTRIBUTOR''} else {})"
    by (auto simp: allowed_reverters_def)
  have edited: "validate_revert w pr comment_id = (Inl (PostCommentError EditedCommand), [])"
    if "triggering_comment pr comment_id = Inr c" "editor_login c \<noteq> None"
    using that by (simp add: validate_revert_def)
  have refused: "validate_revert w pr comment_id =
        (Inl (PostCommentError (NotAllowedReverter (author_login c) (allowed_reverters pr)
                (author_association c))), [])"
    if "triggering_comment pr comment_id = Inr c" "editor_login c = None"
      "author_association c \<notin> set (allowed_reverters pr)"
    using that by (simp add: validate_revert_def)
  have passed: "validate_revert w pr comment_id \<noteq>
           (Inl (PostCommentError (NotAllowedReverter login allowed association)), ops)"
    if "triggering_comment pr comment_id = Inr c" "editor_login c = None"
      "author_association c \<in> set (allowed_reverters pr)"
    for login allowed association ops
  proof -
    have no: "find_matching_merge_rule w pr True skip None
        \<noteq> Inl (PostCommentError (NotAllowedReverter login allowed association))" for skip
      by (auto simp: find_matching_merge_rule_def get_changed_files_def Let_def
          get_combined_checks_from_pr_and_land_validation_def get_classifications_def
          rules_loop_no_post split: sum.splits if_splits)
    have no2: "can_skip_internal_checks pr comment_id
        \<noteq> Inl (PostCommentError (NotAllowedReverter login allowed association))"
      by (auto simp: can_skip_internal_checks_def get_comment_by_id_def
          split: option.splits sum.splits)
    from that no no2 show ?thesis
      by (auto simp: validate_revert_def Let_def split: sum.splits option.splits list.splits)
  qed
  from edited refused passed show ?thesis
    unfolding allowed by blast
qed

theorem validate_revert_rejects_witness:
  "validate_revert example_world edited_pr None = (Inl (PostCommentError EditedCommand), [])
   \<and> validate_revert example_world green_pr None =
       (Inl (PostCommentError (NotAllowedReverter ''mallory''
          [''COLLABORATOR'', ''MEMBER'', ''OWNER''] ''NONE'')), [])
   \<and> validate_revert example_world green_pr (Some 42) =
       (Inl (PostCommentError NoCommitsResolving), [GitCommitsResolving 1001])"
proof -
  have t1: "triggering_comment edited_pr None = Inr edited_comment" by code_simp
  have e1: "editor_login edited_comment \<noteq> None" by code_simp
  have t2: "triggering_comment green_pr None = Inr outsider_comment" by code_simp
  have e2: "editor_login outsider_comment = None" by code_simp
  have a2: "author_association outsider_comment \<notin>
      {''COLLABORATOR'', ''MEMBER'', ''OWNER''}
        \<union> (if base_repo_private green_pr then {''CONTRIBUTOR''} else {})" by code_simp
  have v2: "NotAllowedReverter (author_login outsider_comment) (allowed_reverters green_pr)
      (author_association outsider_comment) =
      NotAllowedReverter ''mallory'' [''COLLABORATOR'', ''MEMBER'', ''OWNER''] ''NONE''"
    by code_simp
  have v3: "validate_revert example_world green_pr (Some 42) =
       (Inl (PostCommentError NoCommitsResolving), [GitCommitsResolving 1001])" by code_simp
  from validate_revert_rejects [of edited_pr None edited_comment example_world] t1 e1
  have "validate_revert example_world edited_pr None = (Inl (PostCommentError EditedCommand), [])"
    by blast
  moreover from validate_revert_rejects [of green_pr None outsider_comment example_world] t2 e2 a2
  have "validate_revert example_world green_pr None =
        (Inl (PostCommentError (NotAllowedReverter (author_login outsider_comment)
           (allowed_reverters green_pr) (author_association outsider_comment))), [])"
    by blast
  ultimately show ?thesis using v2 v3 by simp
qed

subsection \<open>Skipping the internal-changes check\<close>

lemma rule_body_return:
  "rule_body w pr sm si fs ap cs rule acc = Return found \<Longrightarrow> si \<or> \<not> has_internal_changes w pr"
  by (cases "rule_approvers w (mr_approved_by rule) []")
     (auto simp: rule_body_def Let_def split: if_splits)

lemma rules_loop_return:
  "rules_loop (rule_body w pr sm si fs ap cs) rules acc = Inl (Inr found) \<Longrightarrow>
     si \<or> \<not> has_internal_changes w pr"
proof (induction rules arbitrary: acc)
  case Nil
  then show ?case by simp
next
  case (Cons rule rules)
  show ?case
  proof (cases "rule_body w pr sm si fs ap cs rule acc")
    case (Continue score r)
    with Cons.prems have "rules_loop (rule_body w pr sm si fs ap cs) rules (score, r) = Inl (Inr found)"
      by simp
    then show ?thesis by (rule Cons.IH)
  next
    case (Return r)
    then show ?thesis by (rule rule_body_return)
  next
    case (Raise e)
    with Cons.prems show ?thesis by simp
  qed
qed

lemma find_matching_merge_rule_gate:
  assumes "find_matching_merge_rule w pr sm si land = Inr found"
  shows "si \<or> \<not> has_internal_changes w pr"
proof -
  from assms obtain fs cs where
    loop: "rules_loop (rule_body w pr sm si fs (get_approved_by pr) cs) (merge_rules w) (0, NoRuleFound)
      = Inl (Inr found)"
    by (auto simp: find_matching_merge_rule_def Let_def split: sum.splits if_splits)
  then show ?thesis by (rule rules_loop_return)
qed

text \<open>
  C10. \<open>can_skip_internal_checks\<close> returns \<open>False\<close> whenever no comment id is supplied,
  so the rule check that \<open>merge_into\<close> runs without a comment id never returns a rule
  for a pull request with internal changes. It returns \<open>True\<close> exactly when an id is
  supplied, the comment with that id is found, has not been edited, and its author
  login is \<open>facebook-github-bot\<close>.
\<close>

theorem can_skip_internal_checks_spec:
  "can_skip_internal_checks pr None = Inr False
   \<and> (has_internal_changes w pr \<longrightarrow>
        (\<forall>found. merge_into_rule_check w pr skip_mandatory_checks None land_check_commit \<noteq> Inr found))
   \<and> (can_skip_internal_checks pr comment_id = Inr True \<longleftrightarrow>
        (\<exists>i c. comment_id = Some i \<and> get_comment_by_id pr i = Inr c \<and>
           editor_login c = None \<and> author_login c = ''facebook-github-bot''))"
proof -
  have none: "can_skip_internal_checks pr None = Inr False"
    by (simp add: can_skip_internal_checks_def)
  have gate: "merge_into_rule_check w pr skip_mandatory_checks None land_check_commit \<noteq> Inr found"
    if "has_internal_changes w pr" for found
    using that find_matching_merge_rule_gate [of w pr skip_mandatory_checks False land_check_commit found]
    by (auto simp: merge_into_rule_check_def none)
  have true: "can_skip_internal_checks pr comment_id = Inr True \<longleftrightarrow>
        (\<exists>i c. comment_id = Some i \<and> get_comment_by_id pr i = Inr c \<and>
           editor_login c = None \<and> author_login c = ''facebook-github-bot'')"
    by (auto simp: can_skip_internal_checks_def split: option.splits sum.splits)
  from none gate true show ?thesis by blast
qed

theorem can_skip_internal_checks_spec_witness:
  "can_skip_internal_checks example_pr None = Inr False
   \<and> can_skip_internal_checks example_pr (Some 42) = Inr True
   \<and> get_comment_by_id example_pr 42 = Inr bot_comment
   \<and> can_skip_internal_checks example_pr (Some 43) = Inr False
   \<and> has_internal_changes example_world internal_pr
   \<and> merge_into_rule_check example_world internal_pr True None None
       = Inl (RuntimeError InternalChanges)
   \<and> merge_into_rule_check example_world internal_pr True (Some 42) None = Inr core_rule"
proof -
  have e: "get_comment_by_id example_pr 42 = Inr bot_comment
      \<and> editor_login bot_comment = None \<and> author_login bot_comment = ''facebook-github-bot''
      \<and> can_skip_internal_checks example_pr (Some 43) = Inr False
      \<and> has_internal_changes example_world internal_pr
      \<and> merge_into_rule_check example_world internal_pr True None None
          = Inl (RuntimeError InternalChanges)
      \<and> merge_into_rule_check example_world internal_pr True (Some 42) None = Inr core_rule"
    by code_simp
  with can_skip_internal_checks_spec [of example_pr example_world True None "Some 42"]
    can_skip_internal_checks_spec [of internal_pr example_world True None None]
  show ?thesis by auto
qed

subsection \<open>Commit messages\<close>

lemma is_word_not_LF: "is_word c \<Longrightarrow> c \<noteq> LF"
  by (auto simp: is_word_def LF_def Let_def)

lemma prefix_takeWhile:
  assumes "\<forall>c\<in>set p. Q c"
  shows "prefix p (takeWhile Q s) \<longleftrightarrow> prefix p s"
proof
  assume "prefix p (takeWhile Q s)"
  then show "prefix p s"
    by (metis prefix_order.order_trans takeWhile_is_prefix)
next
  assume "prefix p s"
  then obtain s' where "s = p @ s'" by (auto simp: prefix_def)
  with assms show "prefix p (takeWhile Q s)" by (simp add: takeWhile_append2)
qed

lemma drop_takeWhile:
  assumes "prefix p s" and "\<forall>c\<in>set p. Q c"
  shows "drop (length p) (takeWhile Q s) = takeWhile Q (drop (length p) s)"
proof -
  from assms(1) obtain s' where "s = p @ s'" by (auto simp: prefix_def)
  with assms(2) show ?thesis by (simp add: takeWhile_append2)
qed

lemma cc_head_first_line:
  "cc_head (takeWhile (\<lambda>c. c \<noteq> LF) s) = map_option (takeWhile (\<lambda>c. c \<noteq> LF)) (cc_head s)"
proof -
  have q5: "\<forall>c\<in>set ''cc: @''. c \<noteq> LF" and q4: "\<forall>c\<in>set ''cc @''. c \<noteq> LF"
    by (simp_all add: LF_def)
  have d5: "drop 5 (takeWhile (\<lambda>c. c \<noteq> LF) s) = takeWhile (\<lambda>c. c \<noteq> LF) (drop 5 s)"
    if "prefix ''cc: @'' s"
    using drop_takeWhile [OF that q5] by (simp add: eval_nat_numeral)
  have d4: "drop 4 (takeWhile (\<lambda>c. c \<noteq> LF) s) = takeWhile (\<lambda>c. c \<noteq> LF) (drop 4 s)"
    if "prefix ''cc @'' s"
    using drop_takeWhile [OF that q4] by (simp add: eval_nat_numeral)
  show ?thesis
    unfolding cc_head_def prefix_takeWhile [OF q5] prefix_takeWhile [OF q4]
    by (simp add: d5 d4)
qed

lemma cc_prefix_first_line:
  "cc_prefix (takeWhile (\<lambda>c. c \<noteq> LF) s) = None \<longleftrightarrow> cc_prefix s = None"
proof (cases "cc_head s")
  case None
  then show ?thesis by (simp add: cc_prefix_def cc_head_first_line)
next
  case (Some u)
  show ?thesis
  proof (cases u)
    case Nil
    with Some show ?thesis by (simp add: cc_prefix_def cc_head_first_line)
  next
    case (Cons c u')
    with Some show ?thesis
      using is_word_not_LF [of c]
      by (auto simp: cc_prefix_def cc_head_first_line)
  qed
qed

lemma match_cc_None_iff: "match_cc s = None \<longleftrightarrow> cc_prefix s = None"
  by (auto simp: match_cc_def Let_def split: option.splits list.splits)

lemma match_cc_rest:
  assumes "match_cc s = Some m"
  shows "fst m = [] \<or> (\<exists>r. fst m = LF # r)"
proof -
  from assms obtain u where u: "cc_prefix s = Some u"
    by (auto simp: match_cc_def split: option.splits)
  show ?thesis
  proof (cases "dropWhile (\<lambda>c. c \<noteq> LF) u")
    case Nil
    with assms u show ?thesis by (auto simp: match_cc_def)
  next
    case (Cons x r)
    then have "dropWhile (\<lambda>c. c \<noteq> LF) u \<noteq> []" by simp
    from hd_dropWhile [OF this] Cons have x: "x = LF" by simp
    show ?thesis
    proof (cases r)
      case Nil
      with assms u Cons show ?thesis by (auto simp: match_cc_def)
    next
      case (Cons y r')
      with assms u \<open>dropWhile (\<lambda>c. c \<noteq> LF) u = x # r\<close> x show ?thesis
        by (cases "y = LF") (auto simp: match_cc_def)
    qed
  qed
qed

lemma match_cc_Nil: "match_cc [] = None"
  by (simp add: match_cc_def cc_prefix_def cc_head_def)

lemma match_cc_LF: "match_cc (LF # r) = None"
  by (simp add: match_cc_def cc_prefix_def cc_head_def LF_def)

lemma sub_cc_flag:
  assumes "t = [] \<or> (\<exists>r. t = LF # r)"
  shows "sub_cc b t = sub_cc True t"
  using assms by (auto simp: match_cc_LF)

lemma first_line_sub_cc:
  "takeWhile (\<lambda>c. c \<noteq> LF) (sub_cc False s) = takeWhile (\<lambda>c. c \<noteq> LF) s"
  by (induction s) auto

lemma match_cc_preserved:
  assumes "match_cc (c # cs) = None"
  shows "match_cc (c # sub_cc (c = LF) cs) = None"
proof (cases "c = LF")
  case True
  then show ?thesis by (simp add: match_cc_LF)
next
  case False
  then have "takeWhile (\<lambda>c. c \<noteq> LF) (c # sub_cc (c = LF) cs) = takeWhile (\<lambda>c. c \<noteq> LF) (c # cs)"
    by (simp add: first_line_sub_cc)
  with assms show ?thesis
    by (metis cc_prefix_first_line match_cc_None_iff)
qed

lemma sub_cc_idem: "sub_cc bol (sub_cc bol s) = sub_cc bol s"
proof (induction bol s rule: sub_cc.induct)
  case (1 bol)
  show ?case by simp
next
  case (2 bol c cs)
  show ?case
  proof (cases "if bol then match_cc (c # cs) else None")
    case None
    then have step: "sub_cc bol (c # cs) = c # sub_cc (c = LF) cs" by simp
    from None have "(if bol then match_cc (c # sub_cc (c = LF) cs) else None) = None"
      by (auto split: if_splits intro: match_cc_preserved)
    then have "sub_cc bol (c # sub_cc (c = LF) cs) = c # sub_cc (c = LF) (sub_cc (c = LF) cs)"
      by simp
    with "2.IH"(1) [OF None] step show ?thesis by simp
  next
    case (Some m)
    then have bol: bol and m: "match_cc (c # cs) = Some m" by (simp_all split: if_splits)
    from Some have step: "sub_cc bol (c # cs) = sub_cc (snd m) (fst m)" by simp
    from match_cc_rest [OF m] have fl: "sub_cc (snd m) (fst m) = sub_cc True (fst m)"
      by (rule sub_cc_flag)
    from "2.IH"(2) [OF Some] have "sub_cc (snd m) (sub_cc (snd m) (fst m)) = sub_cc (snd m) (fst m)" .
    moreover have "sub_cc (snd m) (fst m) = [] \<or> (\<exists>r. sub_cc (snd m) (fst m) = LF # r)"
      using match_cc_rest [OF m] by (auto simp: match_cc_LF)
    then have "sub_cc (snd m) (sub_cc (snd m) (fst m)) = sub_cc True (sub_cc (snd m) (fst m))"
      by (rule sub_cc_flag)
    ultimately show ?thesis using step bol by simp
  qed
qed

text \<open>
  C9 (as the code has it). Removing the \<open>cc:\<close> lines is idempotent: for every message
  body, removing them a second time yields the same string as removing them once. So
  the body-stripping step of a merge that is not stacked is idempotent, and composing
  the commit message of a pull request whose body has already been stripped gives the
  same message.
\<close>

theorem strip_body_idempotent:
  "sub_cc True (sub_cc True body) = sub_cc True body
   \<and> strip_body False (strip_body False body) = strip_body False body
   \<and> gen_commit_message (pr\<lparr>pr_body := strip_body False (pr_body pr)\<rparr>) False
       = gen_commit_message pr False"
  by (simp add: strip_body_def gen_commit_message_def get_pr_url_def get_approved_by_def
      get_reviews_def sub_cc_idem)

theorem strip_body_idempotent_witness:
  "strip_body False cc_body = ''Fix the build\<newline>\<newline>\<newline>Details\<newline>''
   \<and> strip_body False (strip_body False cc_body) = strip_body False cc_body"
proof -
  have "strip_body False cc_body = ''Fix the build\<newline>\<newline>\<newline>Details\<newline>''"
    by code_simp
  with strip_body_idempotent [of cc_body] show ?thesis by simp
qed

text \<open>
  With the ghstack block removed as well, as in a stacked merge, the claim fails:
  removing the block \<open>Stack B\<close> moves the line \<open> y\<close> up against the star left of it,
  which makes \<open>Stack A\<close> with one bullet, a block that the second pass removes.
\<close>

theorem strip_body_ghstack_counterexample:
  "strip_body True two_stacks_body = ''Stack A:\<newline>* y\<newline>''
   \<and> strip_body True (strip_body True two_stacks_body) = []
   \<and> strip_body True (strip_body True two_stacks_body) \<noteq> strip_body True two_stacks_body"
  by code_simp

end
